theory Spec2Isabelle
  imports
    Main
    "HOL-Library.Sublist"
    "HOL-Library.Char_ord"
    "HOL-Library.List_Lexorder"
    "HOL-Library.Product_Lexorder"
    "HOL-Library.Multiset"
begin

section \<open>Strings, errors and diagnostics\<close>

text \<open>
  Python strings are modelled as HOL strings: lists of characters whose code point is below
  256. Substring containment (\<^verbatim>\<open>a in b\<close>) is \<^const>\<open>sublist\<close>, \<^verbatim>\<open>startswith\<close> is
  \<^const>\<open>prefix\<close> and \<^verbatim>\<open>endswith\<close> is \<^const>\<open>suffix\<close>. Strings are compared as Python
  compares them, lexicographically by code point.

  Every \<^verbatim>\<open>raise\<close> of the source is a value of \<open>error\<close>. The source raises \<^verbatim>\<open>ValueError\<close>
  at four places, told apart here by the place: an unknown package name, no version under
  the bound, a source entry with no hash, an unknown archive format. \<open>IndexError\<close> is
  Python's error for \<^verbatim>\<open>xs[-1]\<close> on an empty list and \<open>InvalidVersion\<close> the exception of
  the version parser.
\<close>

datatype error =
    NotFoundError
  | VersionNotFoundError
  | MissingHashError
  | UnsupportedFormatError
  | IndexError
  | InvalidVersion

text \<open>Lines the source prints as warnings; the other console output is not modelled.\<close>

datatype diagnostic =
    NoBuildMatch string
  | UrlNotFound string

section \<open>Package records and the version resolver\<close>

text \<open>One entry of a group of the package database, as \<^verbatim>\<open>parse_repodata\<close> writes it.\<close>

record pkg_record =
  name :: string
  version :: string
  url :: string
  depends :: "string list"
  nv :: string
  timestamp :: int
  build :: string

text \<open>
  \<^verbatim>\<open>if py:\<close> of \<^verbatim>\<open>get_pkg_spec\<close>: the filter is applied when \<^verbatim>\<open>py\<close> is neither
  \<^verbatim>\<open>None\<close> nor the empty string. The result is the new \<^verbatim>\<open>pkg_specs\<close> and what was
  printed.
\<close>

definition filter_pkg_specs ::
  "string option \<Rightarrow> pkg_record list \<Rightarrow> pkg_record list \<times> diagnostic list" where
  "filter_pkg_specs py pkg_specs =
     (case py of
        None \<Rightarrow> (pkg_specs, [])
      | Some s \<Rightarrow>
          if s = [] then (pkg_specs, [])
          else (let narrowed = filter (\<lambda>x. sublist s (build x)) pkg_specs
                in if length narrowed > 0 then (narrowed, [])
                   else (pkg_specs, [NoBuildMatch s])))"

text \<open>
  The loop \<^verbatim>\<open>for p in reversed(pkg_specs)\<close>, run on the reversed list. The version
  parser \<^verbatim>\<open>packaging.version.parse\<close> is a parameter \<open>PV\<close>: it returns \<open>None\<close> where
  the library raises, and its values are linearly ordered. Python evaluates
  \<^verbatim>\<open>PV(p["version"])\<close> before \<^verbatim>\<open>PV(ver)\<close>.
\<close>

fun scan_specs ::
  "(string \<Rightarrow> 'v::linorder option) \<Rightarrow> string \<Rightarrow> pkg_record list \<Rightarrow> error + pkg_record" where
  "scan_specs PV ver [] = Inl VersionNotFoundError"
| "scan_specs PV ver (p # ps) =
     (case PV (version p) of
        None \<Rightarrow> Inl InvalidVersion
      | Some a \<Rightarrow>
          (case PV ver of
             None \<Rightarrow> Inl InvalidVersion
           | Some b \<Rightarrow> if a \<le> b then Inr p else scan_specs PV ver ps))"

text \<open>
  \<^verbatim>\<open>get_pkg_spec(pkg, ver, py, pkg_db)\<close>, on the database already read from its file:
  a dictionary from names to lists of records.
\<close>

definition get_pkg_spec ::
  "(string \<Rightarrow> 'v::linorder option) \<Rightarrow> string \<Rightarrow> string option \<Rightarrow> string option \<Rightarrow>
   (string \<rightharpoonup> pkg_record list) \<Rightarrow> diagnostic list \<times> (error + pkg_record)" where
  "get_pkg_spec PV pkg ver py pkg_db =
     (case pkg_db pkg of
        None \<Rightarrow> ([], Inl NotFoundError)
      | Some grp \<Rightarrow>
          (let (pkg_specs, out) = filter_pkg_specs py grp
           in (out,
               case ver of
                 None \<Rightarrow> if pkg_specs = [] then Inl IndexError else Inr (last pkg_specs)
               | Some v \<Rightarrow> scan_specs PV v (rev pkg_specs))))"

subsection \<open>A version parser for the examples\<close>

text \<open>
  The examples below need a concrete parser. \<open>release_PV\<close> reads the versions made of
  decimal numbers separated by dots, compares them as tuples of numbers with the trailing
  zeros dropped, and rejects every other string.
\<close>

fun split_on :: "'a \<Rightarrow> 'a list \<Rightarrow> 'a list list" where
  "split_on c [] = [[]]"
| "split_on c (x # xs) =
     (if x = c then [] # split_on c xs
      else (case split_on c xs of
              [] \<Rightarrow> [[x]]
            | y # ys \<Rightarrow> (x # y) # ys))"

definition is_digit :: "char \<Rightarrow> bool" where
  "is_digit c = (CHR ''0'' \<le> c \<and> c \<le> CHR ''9'')"

definition parse_nat :: "string \<Rightarrow> nat option" where
  "parse_nat s =
     (if s \<noteq> [] \<and> list_all is_digit s
      then Some (foldl (\<lambda>n c. 10 * n + (of_char c - 48)) 0 s)
      else None)"

definition drop_trailing_zeros :: "nat list \<Rightarrow> nat list" where
  "drop_trailing_zeros ns = rev (dropWhile (\<lambda>n. n = 0) (rev ns))"

definition release_PV :: "string \<Rightarrow> nat list option" where
  "release_PV s = map_option drop_trailing_zeros (those (map parse_nat (split_on CHR ''.'' s)))"

definition mk_record :: "string \<Rightarrow> string \<Rightarrow> string \<Rightarrow> pkg_record" where
  "mk_record n v b =
     \<lparr>name = n, version = v, url = ''https://conda.example/linux-64/'' @ n @ ''-'' @ v @ ''-'' @ b @ ''.conda'',
      depends = [], nv = n @ ''-'' @ v, timestamp = 0, build = b\<rparr>"

definition db1 :: "string \<rightharpoonup> pkg_record list" where
  "db1 = [''pkg'' \<mapsto> [mk_record ''pkg'' ''1.0'' ''py39_0'',
                     mk_record ''pkg'' ''1.2'' ''py310_0'',
                     mk_record ''pkg'' ''2.0'' ''py310_0'']]"


section \<open>Character classes and regular expressions\<close>

text \<open>
  The classes \<^verbatim>\<open>\s\<close>, \<^verbatim>\<open>\w\<close> and \<^verbatim>\<open>\d\<close> of Python's \<^verbatim>\<open>re\<close> on text, for the
  code points below 256; \<^verbatim>\<open>str.strip()\<close> removes the characters of \<^verbatim>\<open>\s\<close>.
  \<^verbatim>\<open>\d\<close> is \<open>is_digit\<close> above.
\<close>

definition is_space :: "char \<Rightarrow> bool" where
  "is_space c =
     (let n = (of_char c :: nat)
      in (9 \<le> n \<and> n \<le> 13) \<or> (28 \<le> n \<and> n \<le> 32) \<or> n = 133 \<or> n = 160)"

definition is_word :: "char \<Rightarrow> bool" where
  "is_word c =
     (let n = (of_char c :: nat)
      in (48 \<le> n \<and> n \<le> 57) \<or> (65 \<le> n \<and> n \<le> 90) \<or> n = 95 \<or> (97 \<le> n \<and> n \<le> 122) \<or>
         n = 170 \<or> n = 178 \<or> n = 179 \<or> n = 181 \<or> n = 185 \<or> n = 186 \<or>
         (188 \<le> n \<and> n \<le> 190) \<or> (192 \<le> n \<and> n \<le> 214) \<or> (216 \<le> n \<and> n \<le> 246) \<or>
         248 \<le> n)"

text \<open>
  Regular expressions over character classes. \<open>re_fullmatch r s\<close> decides whether the whole
  of \<open>s\<close> is a word of \<open>r\<close>, by derivatives: \<open>deriv c r\<close> matches what \<open>r\<close> matches
  after a leading \<open>c\<close>.
\<close>

datatype rexp =
    Zero
  | Eps
  | Cls "char \<Rightarrow> bool"
  | Alt rexp rexp
  | Seq rexp rexp
  | Star rexp

abbreviation Plus :: "rexp \<Rightarrow> rexp" where
  "Plus r \<equiv> Seq r (Star r)"

abbreviation Opt :: "rexp \<Rightarrow> rexp" where
  "Opt r \<equiv> Alt r Eps"

abbreviation Chr :: "char \<Rightarrow> rexp" where
  "Chr c \<equiv> Cls (\<lambda>x. x = c)"

fun nullable :: "rexp \<Rightarrow> bool" where
  "nullable Zero = False"
| "nullable Eps = True"
| "nullable (Cls P) = False"
| "nullable (Alt r s) = (nullable r \<or> nullable s)"
| "nullable (Seq r s) = (nullable r \<and> nullable s)"
| "nullable (Star r) = True"

fun deriv :: "char \<Rightarrow> rexp \<Rightarrow> rexp" where
  "deriv c Zero = Zero"
| "deriv c Eps = Zero"
| "deriv c (Cls P) = (if P c then Eps else Zero)"
| "deriv c (Alt r s) = Alt (deriv c r) (deriv c s)"
| "deriv c (Seq r s) =
     (if nullable r then Alt (Seq (deriv c r) s) (deriv c s) else Seq (deriv c r) s)"
| "deriv c (Star r) = Seq (deriv c r) (Star r)"

fun re_fullmatch :: "rexp \<Rightarrow> string \<Rightarrow> bool" where
  "re_fullmatch r [] = nullable r"
| "re_fullmatch r (c # cs) = re_fullmatch (deriv c r) cs"

text \<open>
  \<^verbatim>\<open>fn_is_simple = re.compile(r"^v?\d+([\-.]\d+)+(\.\w+)+$").match\<close>. The result is used as
  a truth value only. \<^verbatim>\<open>match\<close> anchors at the start, and \<^verbatim>\<open>$\<close> matches at the end of the
  string and also just before a newline that ends it: hence the optional last character.
\<close>

definition fn_is_simple_re :: rexp where
  "fn_is_simple_re =
     Seq (Opt (Chr CHR ''v''))
    (Seq (Plus (Cls is_digit))
    (Seq (Plus (Seq (Cls (\<lambda>c. c = CHR ''-'' \<or> c = CHR ''.'')) (Plus (Cls is_digit))))
    (Seq (Plus (Seq (Chr CHR ''.'') (Plus (Cls is_word))))
         (Opt (Chr (CHR 0x0A))))))"

definition fn_is_simple :: "string \<Rightarrow> bool" where
  "fn_is_simple s = re_fullmatch fn_is_simple_re s"

section \<open>Paths and strings\<close>

text \<open>
  \<^verbatim>\<open>os.path.basename\<close>, \<^verbatim>\<open>os.path.join\<close> (of two components) and \<^verbatim>\<open>os.path.dirname\<close>, as
  \<^verbatim>\<open>posixpath\<close> defines them.
\<close>

definition os_path_basename :: "string \<Rightarrow> string" where
  "os_path_basename p = rev (takeWhile (\<lambda>c. c \<noteq> CHR ''/'') (rev p))"

definition os_path_join :: "string \<Rightarrow> string \<Rightarrow> string" where
  "os_path_join a b =
     (if prefix ''/'' b then b
      else if a = [] \<or> suffix ''/'' a then a @ b
      else a @ ''/'' @ b)"

definition rstrip_slash :: "string \<Rightarrow> string" where
  "rstrip_slash p = rev (dropWhile (\<lambda>c. c = CHR ''/'') (rev p))"

definition os_path_dirname :: "string \<Rightarrow> string" where
  "os_path_dirname p =
     (let head = rev (dropWhile (\<lambda>c. c \<noteq> CHR ''/'') (rev p))
      in if head \<noteq> [] \<and> \<not> list_all (\<lambda>c. c = CHR ''/'') head then rstrip_slash head else head)"

text \<open>
  \<^verbatim>\<open>s.replace(old, new)\<close>: every occurrence of \<open>old\<close>, found from the left and not
  overlapping, becomes \<open>new\<close>. For an empty \<open>old\<close> Python puts \<open>new\<close> before every
  character and at the end.
\<close>

function str_replace_from :: "string \<Rightarrow> string \<Rightarrow> string \<Rightarrow> string" where
  "str_replace_from old new [] = []"
| "str_replace_from old new (c # cs) =
     (if old \<noteq> [] \<and> prefix old (c # cs)
      then new @ str_replace_from old new (drop (length old) (c # cs))
      else c # str_replace_from old new cs)"
  by pat_completeness auto
termination
  by (relation "measure (\<lambda>(old, new, s). length s)") (auto simp: neq_Nil_conv)

definition str_replace :: "string \<Rightarrow> string \<Rightarrow> string \<Rightarrow> string" where
  "str_replace old new s =
     (if old = [] then new @ concat (map (\<lambda>c. c # new) s) else str_replace_from old new s)"

text \<open>
  \<^verbatim>\<open>url_basename(url) = os.path.basename(urllib.parse.urlparse(url).path)\<close>. The path
  component of a URL is the library's business: it is the parameter \<open>urlpath\<close>.
  \<open>simple_urlpath\<close> is the path of a URL of the form \<^verbatim>\<open>scheme://host/path\<close> with no query and
  no fragment, for the examples.
\<close>

definition url_basename :: "(string \<Rightarrow> string) \<Rightarrow> string \<Rightarrow> string" where
  "url_basename urlpath u = os_path_basename (urlpath u)"

definition simple_urlpath :: "string \<Rightarrow> string" where
  "simple_urlpath u =
     dropWhile (\<lambda>c. c \<noteq> CHR ''/'') (drop 2 (dropWhile (\<lambda>c. c \<noteq> CHR ''/'') u))"

section \<open>Source entries of a recipe\<close>

text \<open>
  The \<^verbatim>\<open>source\<close> field of the parsed \<^verbatim>\<open>meta.yaml\<close> is one mapping or a list of
  mappings; the values that \<^verbatim>\<open>load_urls\<close> reads are strings. An entry of its result is
  the list \<^verbatim>\<open>[hash_type, hash, fn]\<close>, and the result a dictionary in insertion order:
  a list of pairs with distinct keys, written by \<open>dict_set\<close>.
\<close>

type_synonym item = "string \<rightharpoonup> string"

datatype source_field = OneSource item | SourceList "item list"

record src_entry =
  hash_type :: string
  hash :: string
  fn :: "string option"

fun dict_set :: "('k \<times> 'v) list \<Rightarrow> 'k \<Rightarrow> 'v \<Rightarrow> ('k \<times> 'v) list" where
  "dict_set [] k v = [(k, v)]"
| "dict_set ((k', v') # kvs) k v =
     (if k' = k then (k', v) # kvs else (k', v') # dict_set kvs k v)"

text \<open>
  The chain \<^verbatim>\<open>if "md5" in item: ... elif "sha256" in item: ... elif "sha1" in item: ... else: raise\<close>
  and the loop of \<^verbatim>\<open>load_urls\<close> around it.
\<close>

definition pick_hash_type :: "item \<Rightarrow> string option" where
  "pick_hash_type it =
     (if it ''md5'' \<noteq> None then Some ''md5''
      else if it ''sha256'' \<noteq> None then Some ''sha256''
      else if it ''sha1'' \<noteq> None then Some ''sha1''
      else None)"

fun load_items ::
  "item list \<Rightarrow> (string \<times> src_entry) list \<Rightarrow> error + (string \<times> src_entry) list" where
  "load_items [] result = Inr result"
| "load_items (it # items) result =
     (case it ''url'' of
        None \<Rightarrow> load_items items result
      | Some u \<Rightarrow>
          (case pick_hash_type it of
             None \<Rightarrow> Inl MissingHashError
           | Some ht \<Rightarrow>
               load_items items
                 (dict_set result u \<lparr>hash_type = ht, hash = the (it ht), fn = it ''fn''\<rparr>)))"

fun as_list :: "source_field \<Rightarrow> item list" where
  "as_list (OneSource it) = [it]"
| "as_list (SourceList items) = items"

definition load_urls :: "source_field option \<Rightarrow> error + (string \<times> src_entry) list" where
  "load_urls src =
     (case src of
        None \<Rightarrow> Inr []
      | Some sources \<Rightarrow> load_items (as_list sources) [])"

section \<open>Downloading and unpacking\<close>

text \<open>
  What \<^verbatim>\<open>create_feedstock\<close> does to the file system and the network, in the order it does
  it: each constructor is one call (\<^verbatim>\<open>download_file(url, fn)\<close>, \<^verbatim>\<open>shutil.rmtree\<close>,
  \<^verbatim>\<open>os.makedirs\<close>, \<^verbatim>\<open>shutil.unpack_archive\<close> with the format \<^verbatim>\<open>zip\<close> or with the format
  read from the name, and the extraction of a decompressed tar by \<^verbatim>\<open>extract_zst\<close>), with the
  archive first and the destination second. Failures of the calls themselves are not
  modelled.
\<close>

datatype effect =
    Download string string
  | Rmtree string
  | Makedirs string
  | UnpackZip string string
  | UnpackByName string string
  | UnpackZst string string

text \<open>
  The loop over the sources in \<^verbatim>\<open>create_feedstock\<close>: \<open>dest_fn\<close> is the file name it
  computes (\<^verbatim>\<open>fn = v[2] if v[2] is not None else url_basename(url)\<close>, then the prefix when
  \<^verbatim>\<open>fn_is_simple(fn)\<close>), \<open>download_sources\<close> the call of \<^verbatim>\<open>load_urls\<close> followed by the
  loop: the downloads made, and the dictionary with every \<^verbatim>\<open>v[2]\<close> set.
\<close>

definition dest_fn :: "(string \<Rightarrow> string) \<Rightarrow> string \<Rightarrow> string \<Rightarrow> src_entry \<Rightarrow> string" where
  "dest_fn urlpath pkg u v =
     (let f = (case fn v of Some f \<Rightarrow> f | None \<Rightarrow> url_basename urlpath u)
      in if fn_is_simple f then pkg @ ''-'' @ f else f)"

definition download_sources ::
  "(string \<Rightarrow> string) \<Rightarrow> string \<Rightarrow> string \<Rightarrow> source_field option \<Rightarrow>
   effect list \<times> (error + (string \<times> src_entry) list)" where
  "download_sources urlpath pkg pkgs_dir src =
     (case load_urls src of
        Inl e \<Rightarrow> ([], Inl e)
      | Inr urls \<Rightarrow>
          (map (\<lambda>(u, v). Download u (os_path_join pkgs_dir (dest_fn urlpath pkg u v))) urls,
           Inr (map (\<lambda>(u, v). (u, v\<lparr>fn := Some (dest_fn urlpath pkg u v)\<rparr>)) urls)))"

text \<open>
  \<^verbatim>\<open>extract_zst\<close> and \<^verbatim>\<open>extract_archive\<close>. \<^verbatim>\<open>os.path.abspath\<close> is the parameter
  \<open>abspath\<close>.
\<close>

definition plain_formats :: "string list" where
  "plain_formats =
     [''zip'', ''tar'', ''tar.gz'', ''tgz'', ''gztar'', ''bztar'', ''tar.bz2'', ''xztar'', ''tar.zx'']"

definition extract_zst :: "(string \<Rightarrow> string) \<Rightarrow> string \<Rightarrow> string \<Rightarrow> effect" where
  "extract_zst abspath archive out_path = UnpackZst (abspath archive) (abspath out_path)"

definition extract_archive ::
  "(string \<Rightarrow> string) \<Rightarrow> string \<Rightarrow> string \<Rightarrow> string \<Rightarrow> error + effect" where
  "extract_archive abspath archive out_path format =
     (if format = ''zst'' then Inr (extract_zst abspath archive out_path)
      else if format = ''conda'' then Inr (UnpackZip archive out_path)
      else if format \<in> set plain_formats then Inr (UnpackByName archive out_path)
      else Inl UnsupportedFormatError)"

text \<open>
  The first part of \<^verbatim>\<open>create_feedstock\<close>, from the download of the binary package to its
  extraction, for a package whose record has the URL \<open>u\<close>.
\<close>

definition unpack_package ::
  "(string \<Rightarrow> string) \<Rightarrow> (string \<Rightarrow> string) \<Rightarrow> string \<Rightarrow> string \<Rightarrow> error + effect list" where
  "unpack_package urlpath abspath workdir u =
     (let out_fn = os_path_join workdir (url_basename urlpath u);
          extract_dir =
            os_path_join workdir
              (str_replace ''.conda'' '''' (str_replace ''.tar.bz2'' '''' (os_path_basename out_fn)));
          before = [Download u out_fn, Rmtree extract_dir, Makedirs extract_dir]
      in if sublist ''.conda'' out_fn
         then (case extract_archive abspath out_fn extract_dir ''conda'' of
                 Inl e \<Rightarrow> Inl e
               | Inr outer \<Rightarrow>
                   (let info_out_fn =
                          ''info-'' @ str_replace ''.conda'' ''.tar.zst'' (url_basename urlpath u);
                        info_out_path = os_path_join extract_dir info_out_fn
                    in case extract_archive abspath info_out_path extract_dir ''zst'' of
                         Inl e \<Rightarrow> Inl e
                       | Inr inner \<Rightarrow> Inr (before @ [outer, inner])))
         else (case extract_archive abspath out_fn extract_dir ''zip'' of
                 Inl e \<Rightarrow> Inl e
               | Inr a \<Rightarrow> Inr (before @ [a])))"

text \<open>
Three recipes for the examples.
\<close>

definition src_good :: "source_field" where
  "src_good = SourceList
     [[''url'' \<mapsto> ''https://h.example/a/1.2.3.tar.gz'', ''sha256'' \<mapsto> ''ab'', ''md5'' \<mapsto> ''cd''],
      [''path'' \<mapsto> ''fix.patch''],
      [''url'' \<mapsto> ''https://h.example/a/mylib-src.zip'', ''sha1'' \<mapsto> ''ef'']]"

definition src_bad :: "source_field" where
  "src_bad = SourceList
     [[''url'' \<mapsto> ''https://h.example/a/1.2.3.tar.gz'', ''md5'' \<mapsto> ''cd''],
      [''url'' \<mapsto> ''https://h.example/a/mylib-src.zip'']]"

definition src_fn :: "source_field" where
  "src_fn = OneSource
     [''url'' \<mapsto> ''https://h.example/a/download'', ''fn'' \<mapsto> ''1.0.zip'', ''sha256'' \<mapsto> ''ab'']"

section \<open>The requirements extractor\<close>

text \<open>
  \<^verbatim>\<open>str.strip()\<close> and \<^verbatim>\<open>sep.join(xs)\<close>; \<^verbatim>\<open>s.split("\n")\<close> is \<open>split_on\<close> above.
\<close>

definition str_strip :: "string \<Rightarrow> string" where
  "str_strip s = rev (dropWhile is_space (rev (dropWhile is_space s)))"

fun str_join :: "string \<Rightarrow> string list \<Rightarrow> string" where
  "str_join sep [] = []"
| "str_join sep [x] = x"
| "str_join sep (x # y # ys) = x @ sep @ str_join sep (y # ys)"

text \<open>
  \<^verbatim>\<open>extract_reqs\<close>, on the text of the file. The loop keeps \<^verbatim>\<open>in_req\<close> and \<^verbatim>\<open>result\<close>;
  the first thing it does to a line is \<^verbatim>\<open>line = line.strip()\<close>, and what it appends to
  \<^verbatim>\<open>result\<close> is that stripped line.
\<close>

definition keys :: "string list" where
  "keys = [''host:'', ''run:'', ''build:'', ''run_constrained:'']"

fun extract_reqs_loop :: "bool \<Rightarrow> string list \<Rightarrow> string list \<Rightarrow> string list" where
  "extract_reqs_loop in_req result [] = result"
| "extract_reqs_loop in_req result (raw # content) =
     (let line = str_strip raw
      in if line = [] then extract_reqs_loop in_req result content
         else if \<not> in_req then
           (if \<not> prefix ''requirements:'' line then extract_reqs_loop in_req result content
            else extract_reqs_loop True (result @ [line]) content)
         else if prefix ''#'' line then extract_reqs_loop in_req result content
         else if prefix ''{'' line then extract_reqs_loop in_req (result @ [line]) content
         else if prefix ''-'' line then extract_reqs_loop in_req (result @ [line]) content
         else if suffix '':'' line \<and> line \<notin> set keys then extract_reqs_loop False result content
         else extract_reqs_loop in_req (result @ [line]) content)"

definition extract_reqs :: "string \<Rightarrow> string" where
  "extract_reqs text = str_join ''\<newline>'' (extract_reqs_loop False [] (split_on (CHR 0x0A) text))"

text \<open>
The document of the example.
\<close>

definition reqs_doc :: string where
  "reqs_doc = ''requirements:\<newline>  host:\<newline>    - a\<newline>  run:\<newline>    - b\<newline>about:\<newline>  summary: x''"

section \<open>Building the package database\<close>

text \<open>
  An entry of the channel listing, with the fields \<^verbatim>\<open>parse_repodata\<close> reads; the
  time stamp may be absent (\<^verbatim>\<open>p.get("timestamp", 0)\<close>). \<open>mk_pkg\<close> is the record appended
  for the entry of the file \<open>pn\<close>.
\<close>

record raw_pkg =
  raw_name :: string
  raw_version :: string
  raw_subdir :: string
  raw_build :: string
  raw_depends :: "string list"
  raw_timestamp :: "int option"

definition mk_pkg :: "string \<Rightarrow> string \<Rightarrow> raw_pkg \<Rightarrow> pkg_record" where
  "mk_pkg forge_url pn p =
     \<lparr>name = raw_name p, version = raw_version p,
      url = forge_url @ ''/'' @ raw_subdir p @ ''/'' @ pn,
      depends = raw_depends p, nv = raw_name p @ ''-'' @ raw_version p,
      timestamp = (case raw_timestamp p of None \<Rightarrow> 0 | Some tt \<Rightarrow> tt),
      build = raw_build p\<rparr>"

text \<open>
  \<^verbatim>\<open>pkg_db[n].append(x)\<close> on a \<^verbatim>\<open>defaultdict(list)\<close>, kept in insertion order, and the first
  loop of \<^verbatim>\<open>parse_repodata\<close> over \<^verbatim>\<open>data.items()\<close>.
\<close>

fun dict_append :: "('k \<times> 'a list) list \<Rightarrow> 'k \<Rightarrow> 'a \<Rightarrow> ('k \<times> 'a list) list" where
  "dict_append [] k x = [(k, [x])]"
| "dict_append ((k', xs) # kvs) k x =
     (if k' = k then (k', xs @ [x]) # kvs else (k', xs) # dict_append kvs k x)"

fun group_packages ::
  "string \<Rightarrow> (string \<times> raw_pkg) list \<Rightarrow> (string \<times> pkg_record list) list \<Rightarrow>
   (string \<times> pkg_record list) list" where
  "group_packages forge_url [] pkg_db = pkg_db"
| "group_packages forge_url ((pn, p) # data) pkg_db =
     group_packages forge_url data (dict_append pkg_db (raw_name p) (mk_pkg forge_url pn p))"

text \<open>
  \<^verbatim>\<open>sorted(xs, key=f)\<close> for a key function that may raise: Python computes the key of
  every element first, so it raises as soon as one key does; otherwise the result is the
  stable sort by the keys, which is what \<^const>\<open>sort_key\<close> computes. \<open>sort_group\<close> is the
  body of the second loop, \<^verbatim>\<open>try: sorted(v, key=PV(version)) except Exception: sorted(v,
  key=(version, timestamp, build))\<close>. Tuples and strings are compared lexicographically,
  as Python compares them.
\<close>

definition py_sorted :: "('a \<Rightarrow> 'k::linorder option) \<Rightarrow> 'a list \<Rightarrow> 'a list option" where
  "py_sorted key xs =
     (if list_all (\<lambda>x. key x \<noteq> None) xs then Some (sort_key (\<lambda>x. the (key x)) xs) else None)"

definition sort_group :: "(string \<Rightarrow> 'v::linorder option) \<Rightarrow> pkg_record list \<Rightarrow> pkg_record list" where
  "sort_group PV v =
     (case py_sorted (\<lambda>x. PV (version x)) v of
        Some sorted_v \<Rightarrow> sorted_v
      | None \<Rightarrow> sort_key (\<lambda>x. (version x, timestamp x, build x)) v)"

definition parse_repodata ::
  "(string \<Rightarrow> 'v::linorder option) \<Rightarrow> string \<Rightarrow> (string \<times> raw_pkg) list \<Rightarrow>
   (string \<times> pkg_record list) list" where
  "parse_repodata PV forge_url data =
     map (\<lambda>(k, v). (k, sort_group PV v)) (group_packages forge_url data [])"

text \<open>
A listing for the examples: two packages, one with a version that does not parse.
\<close>

definition raw1 :: "(string \<times> raw_pkg) list" where
  "raw1 =
     [(''a-1.10-0.conda'', \<lparr>raw_name = ''a'', raw_version = ''1.10'', raw_subdir = ''noarch'',
         raw_build = ''0'', raw_depends = [], raw_timestamp = Some 5\<rparr>),
      (''b-x-0.conda'', \<lparr>raw_name = ''b'', raw_version = ''x'', raw_subdir = ''noarch'',
         raw_build = ''0'', raw_depends = [], raw_timestamp = None\<rparr>),
      (''a-1.9-0.conda'', \<lparr>raw_name = ''a'', raw_version = ''1.9'', raw_subdir = ''noarch'',
         raw_build = ''0'', raw_depends = [], raw_timestamp = Some 3\<rparr>),
      (''b-10-0.conda'', \<lparr>raw_name = ''b'', raw_version = ''10'', raw_subdir = ''noarch'',
         raw_build = ''0'', raw_depends = [], raw_timestamp = Some 7\<rparr>),
      (''b-9-0.conda'', \<lparr>raw_name = ''b'', raw_version = ''9'', raw_subdir = ''noarch'',
         raw_build = ''0'', raw_depends = [], raw_timestamp = Some 8\<rparr>)]"




section \<open>Rewriting the URLs of the template\<close>

text \<open>
  \<^verbatim>\<open>url_regex.match(line)\<close> for
  \<^verbatim>\<open>url_regex = re.compile(r"(^\s*-?\s*url:\s*)([^{]+)\{\{.*\}\}([^}]+)$")\<close>: the result is
  the three groups of the match; the whole match \<^verbatim>\<open>m.group()\<close> is the line itself, since the
  pattern is anchored at both ends and its last group runs to the end (lemma
  \<open>url_regex_match_shape\<close> below).

  The pattern leaves the matcher one choice only. The prefix up to \<^verbatim>\<open>url:\<close> is forced.
  Group 2 cannot hold a \<^verbatim>\<open>{\<close>, so it ends at the first \<^verbatim>\<open>{\<close> after \<^verbatim>\<open>url:\<close>, where
  \<^verbatim>\<open>{{\<close> must stand; group 3 cannot hold a \<^verbatim>\<open>}\<close> and runs to the end, so it is what
  follows the last \<^verbatim>\<open>}\<close>, and \<^verbatim>\<open>}}\<close> must stand just before it; \<^verbatim>\<open>.\<close> matches no
  newline. The choice is where group 1 ends; the greedy \<^verbatim>\<open>\s*\<close> takes all the white space
  after \<^verbatim>\<open>url:\<close>, but gives one character back when nothing else is left for group 2.
\<close>

definition url_regex_match :: "string \<Rightarrow> (string \<times> string \<times> string) option" where
  "url_regex_match line =
     (let ws1 = takeWhile is_space line;
          r1 = dropWhile is_space line;
          dash = (if prefix ''-'' r1 then ''-'' else []);
          r2 = drop (length dash) r1;
          ws2 = takeWhile is_space r2;
          r3 = dropWhile is_space r2
      in if \<not> prefix ''url:'' r3 then None
         else
           (let r4 = drop 4 r3;
                nb = takeWhile (\<lambda>c. c \<noteq> CHR ''{'') r4;
                r5 = dropWhile (\<lambda>c. c \<noteq> CHR ''{'') r4;
                ws3 = (if list_all is_space nb then butlast nb else takeWhile is_space nb);
                head = drop (length ws3) nb;
                r6 = drop 2 r5;
                tail = rev (takeWhile (\<lambda>c. c \<noteq> CHR ''}'') (rev r6));
                body = rev (dropWhile (\<lambda>c. c \<noteq> CHR ''}'') (rev r6));
                mid = take (length body - 2) body
            in if nb \<noteq> [] \<and> prefix ''{{'' r5 \<and> suffix ''}}'' body \<and>
                  CHR 0x0A \<notin> set mid \<and> tail \<noteq> []
               then Some (ws1 @ dash @ ws2 @ ''url:'' @ ws3, head, tail)
               else None))"

text \<open>
  \<^verbatim>\<open>re.match(re.escape(head) + r".*" + re.escape(tail), u)\<close>: the text \<open>u\<close> starts with
  \<open>head\<close>, and \<open>tail\<close> occurs after it with no newline in between.
\<close>

fun occurs_on_line :: "string \<Rightarrow> string \<Rightarrow> bool" where
  "occurs_on_line t [] = (t = [])"
| "occurs_on_line t (c # cs) = (prefix t (c # cs) \<or> (c \<noteq> CHR 0x0A \<and> occurs_on_line t cs))"

definition url_pattern_match :: "string \<Rightarrow> string \<Rightarrow> string \<Rightarrow> bool" where
  "url_pattern_match head tail u = (prefix head u \<and> occurs_on_line tail (drop (length head) u))"

text \<open>
  The body of the loop of \<^verbatim>\<open>replace_urls\<close> for one line: the lines appended to
  \<^verbatim>\<open>result\<close> and what is printed. \<open>urls\<close> is the dictionary in insertion order;
  \<^verbatim>\<open>os.path.relpath\<close> is the parameter \<open>relpath\<close>. \<open>replace_urls\<close> returns the new text of
  the file and what was printed.
\<close>

definition rewrite_line ::
  "(string \<Rightarrow> string) \<Rightarrow> (string \<Rightarrow> string \<Rightarrow> string) \<Rightarrow> (string \<times> src_entry) list \<Rightarrow>
   string \<Rightarrow> string \<Rightarrow> string \<Rightarrow> string list \<times> diagnostic list" where
  "rewrite_line urlpath relpath urls pkgs_dir meta_yaml_tpl line =
     (case url_regex_match line of
        None \<Rightarrow> ([line], [])
      | Some (group1, head, tail) \<Rightarrow>
          (case find (\<lambda>(u, v). url_pattern_match head tail u) urls of
             None \<Rightarrow> ([line], [UrlNotFound (str_strip line)])
           | Some (new_url, v) \<Rightarrow>
               (let f = (case fn v of None \<Rightarrow> os_path_basename (urlpath new_url) | Some f2 \<Rightarrow> f2);
                    pkg_path = relpath (os_path_join pkgs_dir f) (os_path_dirname meta_yaml_tpl)
                in ([''#'' @ line, group1 @ pkg_path], []))))"

definition replace_urls ::
  "(string \<Rightarrow> string) \<Rightarrow> (string \<Rightarrow> string \<Rightarrow> string) \<Rightarrow> string \<Rightarrow> (string \<times> src_entry) list \<Rightarrow>
   string \<Rightarrow> string \<Rightarrow> string \<times> diagnostic list" where
  "replace_urls urlpath relpath meta_yaml_tpl urls pkgs_dir content =
     (let results = map (rewrite_line urlpath relpath urls pkgs_dir meta_yaml_tpl)
                        (split_on (CHR 0x0A) content)
      in (str_join ''\<newline>'' (concat (map fst results)), concat (map snd results)))"

text \<open>
  For the examples: the relative path from the directory \<open>start\<close> to \<open>path\<close>, when both are
  absolute and normalised and share nothing but the root; and a template.
\<close>

definition example_relpath :: "string \<Rightarrow> string \<Rightarrow> string" where
  "example_relpath path start =
     concat (map (\<lambda>c. ''../'') (filter (\<lambda>c. c = CHR ''/'') start)) @ drop 1 path"

definition tpl_line :: string where
  "tpl_line = ''  url: https://h.example/a/{{ version }}.tar.gz''"

definition tpl_line_no_tail :: string where
  "tpl_line_no_tail = ''  url: https://h.example/a/{{ name }}''"

definition tpl_doc :: string where
  "tpl_doc = ''source:\<newline>  url: https://h.example/a/{{ version }}.tar.gz\<newline>  md5: cd\<newline>  url: https://other.example/{{ version }}.zip''"

definition urls_good :: "(string \<times> src_entry) list" where
  "urls_good =
     [(''https://h.example/a/1.2.3.tar.gz'',
       \<lparr>hash_type = ''md5'', hash = ''cd'', fn = Some ''foo-1.2.3.tar.gz''\<rparr>),
      (''https://h.example/a/mylib-src.zip'',
       \<lparr>hash_type = ''sha1'', hash = ''ef'', fn = Some ''mylib-src.zip''\<rparr>)]"


section \<open>The words of a regular expression\<close>

text \<open>
  The words of a regular expression, to say what \<open>re_fullmatch\<close> decides (lemma
  \<open>re_fullmatch_words\<close> below).
\<close>

definition words_conc :: "string set \<Rightarrow> string set \<Rightarrow> string set" where
  "words_conc A B = {xs @ ys | xs ys. xs \<in> A \<and> ys \<in> B}"

inductive_set words_star :: "string set \<Rightarrow> string set" for A :: "string set" where
  empty_word: "[] \<in> words_star A"
| one_more: "xs \<in> A \<Longrightarrow> ys \<in> words_star A \<Longrightarrow> xs @ ys \<in> words_star A"

fun words_of :: "rexp \<Rightarrow> string set" where
  "words_of Zero = {}"
| "words_of Eps = {[]}"
| "words_of (Cls P) = {[c] | c. P c}"
| "words_of (Alt r s) = words_of r \<union> words_of s"
| "words_of (Seq r s) = words_conc (words_of r) (words_of s)"
| "words_of (Star r) = words_star (words_of r)"

section \<open>The resolver: theorems\<close>


lemma release_PV_raw1:
  "release_PV ''1.10'' = Some [1, 10]" "release_PV ''1.9'' = Some [1, 9]"
  "release_PV ''10'' = Some [10]" "release_PV ''9'' = Some [9]" "release_PV ''x'' = None"
  by (simp_all add: release_PV_def parse_nat_def is_digit_def drop_trailing_zeros_def)

lemma filter_pkg_specs_cases:
  "fst (filter_pkg_specs py grp) = grp \<or>
   (\<exists>s. py = Some s \<and> s \<noteq> [] \<and> fst (filter_pkg_specs py grp) = filter (\<lambda>x. sublist s (build x)) grp
        \<and> filter (\<lambda>x. sublist s (build x)) grp \<noteq> [])"
  by (auto simp: filter_pkg_specs_def Let_def split: option.splits)

lemma filter_pkg_specs_subset: "set (fst (filter_pkg_specs py grp)) \<subseteq> set grp"
  using filter_pkg_specs_cases [of py grp] by auto

lemma filter_pkg_specs_empty_iff: "fst (filter_pkg_specs py grp) = [] \<longleftrightarrow> grp = []"
  using filter_pkg_specs_cases [of py grp] by auto














text \<open>
  Claim C8. For a package name of the database and a build filter \<open>s\<close>: the candidates
  are the records whose build contains \<open>s\<close> when there is one, and the whole group
  otherwise, with a warning and no error; the candidates are empty only when the group
  is; and with no upper bound the resolver returns the last candidate, failing exactly
  when it fails without the filter.
\<close>

theorem build_filter_never_empties:
  assumes "pkg_db pkg = Some grp"
  shows "(let narrowed = filter (\<lambda>x. sublist s (build x)) grp;
              cands = fst (filter_pkg_specs (Some s) grp);
              out = snd (filter_pkg_specs (Some s) grp)
          in (narrowed \<noteq> [] \<longrightarrow> cands = narrowed \<and> out = []) \<and>
             (narrowed = [] \<longrightarrow> cands = grp) \<and>
             (narrowed = [] \<and> s \<noteq> [] \<longrightarrow> out = [NoBuildMatch s]) \<and>
             (cands = [] \<longleftrightarrow> grp = []) \<and>
             (grp \<noteq> [] \<longrightarrow>
                get_pkg_spec PV pkg None (Some s) pkg_db = (out, Inr (last cands))) \<and>
             (isl (snd (get_pkg_spec PV pkg None (Some s) pkg_db)) \<longleftrightarrow>
                isl (snd (get_pkg_spec PV pkg None None pkg_db))))"
  using assms
  by (auto simp: get_pkg_spec_def filter_pkg_specs_def Let_def filter_empty_conv)

theorem build_filter_never_empties_witness:
  "get_pkg_spec release_PV ''pkg'' None (Some ''311'') db1 =
     ([NoBuildMatch ''311''], Inr (mk_record ''pkg'' ''2.0'' ''py310_0''))"
  using build_filter_never_empties [of db1 "''pkg''" _ "''311''" release_PV]
  by (simp add: db1_def filter_pkg_specs_def mk_record_def sublist_Cons_right Let_def)

section \<open>Downloading and unpacking: theorems\<close>

lemma os_path_join_shape:
  "prefix ''/'' b \<and> os_path_join a b = b \<or>
   os_path_join a b = b \<and> a = [] \<or>
   (\<exists>y. os_path_join a b = y @ ''/'' @ b)"
  by (auto simp: os_path_join_def suffix_def)

lemma takeWhile_not_slash:
  "CHR ''/'' \<notin> set b \<Longrightarrow> takeWhile (\<lambda>c. c \<noteq> CHR ''/'') (b @ CHR ''/'' # y) = b"
  by (induction b) auto

lemma takeWhile_not_slash_all:
  "CHR ''/'' \<notin> set b \<Longrightarrow> takeWhile (\<lambda>c. c \<noteq> CHR ''/'') b = b"
  by (induction b) auto

lemma basename_after_slash:
  "CHR ''/'' \<notin> set b \<Longrightarrow> os_path_basename (y @ ''/'' @ b) = b"
  using takeWhile_not_slash [of "rev b" "rev y"] by (simp add: os_path_basename_def)

lemma basename_no_slash: "CHR ''/'' \<notin> set b \<Longrightarrow> os_path_basename b = b"
proof -
  assume "CHR ''/'' \<notin> set b"
  then have h: "takeWhile (\<lambda>c. c \<noteq> CHR ''/'') (rev b) = rev b"
    by (intro takeWhile_not_slash_all) simp
  show ?thesis by (simp only: os_path_basename_def h rev_rev_ident)
qed

lemma basename_join: "CHR ''/'' \<notin> set b \<Longrightarrow> os_path_basename (os_path_join a b) = b"
  using os_path_join_shape [of b a] basename_after_slash [of b] basename_no_slash [of b]
  by (cases b) auto

lemma sublist_join: "sublist s b \<Longrightarrow> sublist s (os_path_join a b)"
proof -
  assume sb: "sublist s b"
  have "suffix b (os_path_join a b)"
    by (auto simp: os_path_join_def suffix_def)
  then have "sublist b (os_path_join a b)"
    by (rule suffix_imp_sublist)
  with sb show ?thesis by (rule sublist_order.order.trans)
qed

text \<open>
  Claim C3. For a package whose URL has the base name \<^verbatim>\<open>pkg-1.0-0.conda\<close>, the inner archive
  is \<^verbatim>\<open>info-pkg-1.0-0.tar.zst\<close> in the extraction directory, and both extractions are given
  the same destination, the extraction directory: the outer archive is unpacked there as a
  zip, and \<^verbatim>\<open>extract_zst\<close> unpacks the inner tar at the absolute path of that directory.
\<close>

theorem two_layer_unpack:
  assumes "url_basename urlpath u = ''pkg-1.0-0.conda''"
  shows "unpack_package urlpath abspath workdir u =
           (let out_fn = os_path_join workdir ''pkg-1.0-0.conda'';
                extract_dir = os_path_join workdir ''pkg-1.0-0''
            in Inr [Download u out_fn, Rmtree extract_dir, Makedirs extract_dir,
                    UnpackZip out_fn extract_dir,
                    UnpackZst (abspath (os_path_join extract_dir ''info-pkg-1.0-0.tar.zst''))
                              (abspath extract_dir)])"
proof -
  have b: "os_path_basename (os_path_join workdir ''pkg-1.0-0.conda'') = ''pkg-1.0-0.conda''"
    by (rule basename_join) simp
  have c: "sublist ''.conda'' (os_path_join workdir ''pkg-1.0-0.conda'')"
    by (rule sublist_join) (simp add: sublist_Cons_right)
  have r1: "str_replace ''.conda'' [] (str_replace ''.tar.bz2'' [] ''pkg-1.0-0.conda'') = ''pkg-1.0-0''"
    by (simp add: str_replace_def)
  have r2: "str_replace ''.conda'' ''.tar.zst'' ''pkg-1.0-0.conda'' = ''pkg-1.0-0.tar.zst''"
    by (simp add: str_replace_def)
  show ?thesis
    by (simp add: unpack_package_def assms b c r1 r2 extract_archive_def extract_zst_def Let_def)
qed

lemma url_basename_example:
  "url_basename simple_urlpath ''https://conda.example/linux-64/pkg-1.0-0.conda'' = ''pkg-1.0-0.conda''"
  by (simp add: url_basename_def simple_urlpath_def os_path_basename_def)

lemma join_examples:
  "os_path_join ''/w'' ''pkg-1.0-0.conda'' = ''/w/pkg-1.0-0.conda''"
  "os_path_join ''/w'' ''pkg-1.0-0'' = ''/w/pkg-1.0-0''"
  "os_path_join ''/w/pkg-1.0-0'' ''info-pkg-1.0-0.tar.zst'' = ''/w/pkg-1.0-0/info-pkg-1.0-0.tar.zst''"
  by (simp_all add: os_path_join_def suffix_to_prefix)

theorem two_layer_unpack_witness:
  "unpack_package simple_urlpath id ''/w'' ''https://conda.example/linux-64/pkg-1.0-0.conda'' =
     Inr [Download ''https://conda.example/linux-64/pkg-1.0-0.conda'' ''/w/pkg-1.0-0.conda'',
          Rmtree ''/w/pkg-1.0-0'', Makedirs ''/w/pkg-1.0-0'',
          UnpackZip ''/w/pkg-1.0-0.conda'' ''/w/pkg-1.0-0'',
          UnpackZst ''/w/pkg-1.0-0/info-pkg-1.0-0.tar.zst'' ''/w/pkg-1.0-0'']"
  using two_layer_unpack [OF url_basename_example, of id "''/w''"]
  by (simp only: join_examples Let_def id_apply)

section \<open>Source entries: theorems\<close>

lemma pick_hash_type_cases:
  "(pick_hash_type it = Some ''md5'' \<longleftrightarrow> it ''md5'' \<noteq> None) \<and>
   (pick_hash_type it = Some ''sha256'' \<longleftrightarrow> it ''md5'' = None \<and> it ''sha256'' \<noteq> None) \<and>
   (pick_hash_type it = Some ''sha1'' \<longleftrightarrow>
      it ''md5'' = None \<and> it ''sha256'' = None \<and> it ''sha1'' \<noteq> None) \<and>
   (pick_hash_type it = None \<longleftrightarrow>
      it ''md5'' = None \<and> it ''sha256'' = None \<and> it ''sha1'' = None)"
  by (simp add: pick_hash_type_def)

lemma pick_hash_type_Some:
  "pick_hash_type it = Some ht \<Longrightarrow> ht \<in> {''md5'', ''sha256'', ''sha1''} \<and> it ht \<noteq> None"
  by (auto simp: pick_hash_type_def split: if_splits)

lemma set_dict_set: "set (dict_set kvs k v) \<subseteq> insert (k, v) (set kvs)"
  by (induction kvs) (auto split: if_splits)

lemma keys_dict_set: "fst ` set (dict_set kvs k v) = insert k (fst ` set kvs)"
  by (induction kvs) (auto split: if_splits simp: rev_image_eqI)

lemma distinct_dict_set: "distinct (map fst kvs) \<Longrightarrow> distinct (map fst (dict_set kvs k v))"
  by (induction kvs) (auto simp: keys_dict_set)

lemma load_items_error:
  "load_items items acc = Inl e \<longleftrightarrow>
     e = MissingHashError \<and> (\<exists>it \<in> set items. it ''url'' \<noteq> None \<and> pick_hash_type it = None)"
  by (induction items arbitrary: acc) (auto split: option.splits)

lemma load_items_entries:
  "load_items items acc = Inr r \<Longrightarrow> (u, v) \<in> set r \<Longrightarrow>
     (u, v) \<in> set acc \<or>
     (\<exists>it \<in> set items.
        it ''url'' = Some u \<and> fn v = it ''fn'' \<and> it (hash_type v) = Some (hash v) \<and>
        hash_type v =
          (if it ''md5'' \<noteq> None then ''md5''
           else if it ''sha256'' \<noteq> None then ''sha256'' else ''sha1''))"
  (is "_ \<Longrightarrow> _ \<Longrightarrow> _ \<or> (\<exists>it \<in> set items. ?picked it)")
proof (induction items arbitrary: acc)
  case Nil
  then show ?case by simp
next
  case (Cons it items)
  show ?case
  proof (cases "it ''url''")
    case None
    with Cons show ?thesis by auto
  next
    case (Some w)
    with Cons.prems obtain ht where ht: "pick_hash_type it = Some ht"
      by (cases "pick_hash_type it") auto
    let ?e = "\<lparr>hash_type = ht, hash = the (it ht), fn = it ''fn''\<rparr>"
    from Cons.prems Some ht have "load_items items (dict_set acc w ?e) = Inr r" by simp
    from Cons.IH [OF this Cons.prems(2)]
    have "(u, v) \<in> set (dict_set acc w ?e) \<or> (\<exists>it \<in> set items. ?picked it)" .
    then consider (new) "(u, v) = (w, ?e)" | (old) "(u, v) \<in> set acc"
      | (rest) "\<exists>it \<in> set items. ?picked it"
      using set_dict_set [of acc w ?e] by blast
    then show ?thesis
    proof cases
      case new
      then have "?picked it"
        using Some ht pick_hash_type_Some [OF ht]
        by (auto simp: pick_hash_type_def split: if_splits)
      then have "\<exists>x \<in> set (it # items). ?picked x"
        by (meson list.set_intros(1))
      then show ?thesis by (rule disjI2)
    next
      case old
      then show ?thesis by (rule disjI1)
    next
      case rest
      then obtain it' where "it' \<in> set items" "?picked it'" by (rule bexE)
      then have "\<exists>x \<in> set (it # items). ?picked x"
        by (meson list.set_intros(2))
      then show ?thesis by (rule disjI2)
    qed
  qed
qed

lemma load_items_keys:
  "load_items items acc = Inr r \<Longrightarrow>
     fst ` set r = fst ` set acc \<union> {u. \<exists>it \<in> set items. it ''url'' = Some u}"
proof (induction items arbitrary: acc)
  case Nil
  then show ?case by simp
next
  case (Cons it items)
  show ?case
  proof (cases "it ''url''")
    case None
    with Cons show ?thesis by auto
  next
    case (Some w)
    with Cons.prems obtain ht where ht: "pick_hash_type it = Some ht"
      by (cases "pick_hash_type it") auto
    let ?e = "\<lparr>hash_type = ht, hash = the (it ht), fn = it ''fn''\<rparr>"
    from Cons.prems Some ht have "load_items items (dict_set acc w ?e) = Inr r" by simp
    from Cons.IH [OF this] show ?thesis using Some by (auto simp: keys_dict_set)
  qed
qed

lemma load_items_distinct:
  "load_items items acc = Inr r \<Longrightarrow> distinct (map fst acc) \<Longrightarrow> distinct (map fst r)"
  by (induction items arbitrary: acc) (auto split: option.splits intro: distinct_dict_set)

lemma load_items_skip:
  "load_items (filter (\<lambda>it. it ''url'' \<noteq> None) items) acc = load_items items acc"
  by (induction items arbitrary: acc) (auto split: option.splits)

text \<open>
  Claim C4. \<^verbatim>\<open>load_urls\<close> fails, with \<open>MissingHashError\<close>, exactly when some mapping has a
  \<^verbatim>\<open>url\<close> and none of the three hash keys. When it succeeds, its keys are distinct and are
  the URLs of the mappings, and every entry comes from a mapping with that URL, with one
  hash: \<^verbatim>\<open>md5\<close> if the mapping has it, else \<^verbatim>\<open>sha256\<close> if it has it, else \<^verbatim>\<open>sha1\<close>.
  Mappings without \<^verbatim>\<open>url\<close> change nothing. When \<^verbatim>\<open>load_urls\<close> fails, no source has been
  downloaded.
\<close>

theorem load_urls_hash_choice:
  "(load_urls (Some sources) = Inl e \<longleftrightarrow>
      e = MissingHashError \<and>
      (\<exists>it \<in> set (as_list sources).
         it ''url'' \<noteq> None \<and> it ''md5'' = None \<and> it ''sha256'' = None \<and> it ''sha1'' = None)) \<and>
   (load_urls (Some sources) = Inr r \<longrightarrow>
      distinct (map fst r) \<and>
      fst ` set r = {u. \<exists>it \<in> set (as_list sources). it ''url'' = Some u} \<and>
      (\<forall>u v. (u, v) \<in> set r \<longrightarrow> (\<exists>it \<in> set (as_list sources).
         it ''url'' = Some u \<and> fn v = it ''fn'' \<and> it (hash_type v) = Some (hash v) \<and>
         hash_type v =
           (if it ''md5'' \<noteq> None then ''md5''
            else if it ''sha256'' \<noteq> None then ''sha256'' else ''sha1'')))) \<and>
   load_urls (Some (SourceList (filter (\<lambda>it. it ''url'' \<noteq> None) items))) =
     load_urls (Some (SourceList items)) \<and>
   (load_urls src = Inl e' \<longrightarrow> download_sources urlpath pkg pkgs_dir src = ([], Inl e'))"
proof (intro conjI impI)
  show "load_urls (Some sources) = Inl e \<longleftrightarrow>
      e = MissingHashError \<and>
      (\<exists>it \<in> set (as_list sources).
         it ''url'' \<noteq> None \<and> it ''md5'' = None \<and> it ''sha256'' = None \<and> it ''sha1'' = None)"
    using pick_hash_type_cases by (simp add: load_urls_def load_items_error)
next
  assume "load_urls (Some sources) = Inr r"
  then have r: "load_items (as_list sources) [] = Inr r" by (simp add: load_urls_def)
  from load_items_distinct [OF r] show "distinct (map fst r)" by simp
  from load_items_keys [OF r]
  show "fst ` set r = {u. \<exists>it \<in> set (as_list sources). it ''url'' = Some u}" by simp
  show "\<forall>u v. (u, v) \<in> set r \<longrightarrow> (\<exists>it \<in> set (as_list sources).
         it ''url'' = Some u \<and> fn v = it ''fn'' \<and> it (hash_type v) = Some (hash v) \<and>
         hash_type v =
           (if it ''md5'' \<noteq> None then ''md5''
            else if it ''sha256'' \<noteq> None then ''sha256'' else ''sha1''))"
  proof (intro allI impI)
    fix u v
    assume "(u, v) \<in> set r"
    from load_items_entries [OF r this]
    show "\<exists>it \<in> set (as_list sources).
         it ''url'' = Some u \<and> fn v = it ''fn'' \<and> it (hash_type v) = Some (hash v) \<and>
         hash_type v =
           (if it ''md5'' \<noteq> None then ''md5''
            else if it ''sha256'' \<noteq> None then ''sha256'' else ''sha1'')"
      by simp
  qed
next
  show "load_urls (Some (SourceList (filter (\<lambda>it. it ''url'' \<noteq> None) items))) =
     load_urls (Some (SourceList items))"
    unfolding load_urls_def by (simp only: option.case as_list.simps load_items_skip)
next
  assume "load_urls src = Inl e'"
  then show "download_sources urlpath pkg pkgs_dir src = ([], Inl e')"
    by (simp add: download_sources_def)
qed

lemma load_urls_src_good:
  "load_urls (Some src_good) =
     Inr [(''https://h.example/a/1.2.3.tar.gz'', \<lparr>hash_type = ''md5'', hash = ''cd'', fn = None\<rparr>),
          (''https://h.example/a/mylib-src.zip'', \<lparr>hash_type = ''sha1'', hash = ''ef'', fn = None\<rparr>)]"
  by (simp add: load_urls_def src_good_def pick_hash_type_def)

lemma load_urls_src_bad: "load_urls (Some src_bad) = Inl MissingHashError"
  by (simp add: load_urls_def src_bad_def pick_hash_type_def)

lemma load_urls_src_fn:
  "load_urls (Some src_fn) =
     Inr [(''https://h.example/a/download'', \<lparr>hash_type = ''sha256'', hash = ''ab'', fn = Some ''1.0.zip''\<rparr>)]"
  by (simp add: load_urls_def src_fn_def pick_hash_type_def)

theorem load_urls_hash_choice_witness:
  "load_urls (Some src_good) =
     Inr [(''https://h.example/a/1.2.3.tar.gz'', \<lparr>hash_type = ''md5'', hash = ''cd'', fn = None\<rparr>),
          (''https://h.example/a/mylib-src.zip'', \<lparr>hash_type = ''sha1'', hash = ''ef'', fn = None\<rparr>)] \<and>
   download_sources simple_urlpath ''foo'' ''/pkgs'' (Some src_bad) = ([], Inl MissingHashError)"
  using load_urls_hash_choice
    [where sources = src_good and e = MissingHashError
       and r = "[(''https://h.example/a/1.2.3.tar.gz'', \<lparr>hash_type = ''md5'', hash = ''cd'', fn = None\<rparr>),
                 (''https://h.example/a/mylib-src.zip'', \<lparr>hash_type = ''sha1'', hash = ''ef'', fn = None\<rparr>)]"
       and items = "as_list src_bad" and src = "Some src_bad" and e' = MissingHashError
       and urlpath = simple_urlpath and pkg = "''foo''" and pkgs_dir = "''/pkgs''"]
  by (simp add: load_urls_src_good load_urls_src_bad)

lemma fn_is_simple_examples:
  "fn_is_simple ''1.2.3.tar.gz''" "\<not> fn_is_simple ''mylib-src.zip''" "fn_is_simple ''1.0.zip''"
  by (simp_all add: fn_is_simple_def fn_is_simple_re_def is_digit_def is_word_def)

text \<open>
  Claim C7. A source whose URL has the base name \<^verbatim>\<open>1.2.3.tar.gz\<close>, and no explicit file
  name, is downloaded to the package name, a dash and \<^verbatim>\<open>1.2.3.tar.gz\<close>; one whose URL has
  the base name \<^verbatim>\<open>mylib-src.zip\<close> is downloaded to \<^verbatim>\<open>mylib-src.zip\<close>.
\<close>

theorem filename_disambiguation:
  assumes "url_basename urlpath u1 = ''1.2.3.tar.gz''"
    and "url_basename urlpath u2 = ''mylib-src.zip''"
    and "load_urls src = Inr [(u1, v1), (u2, v2)]"
    and "fn v1 = None" and "fn v2 = None"
  shows "dest_fn urlpath pkg u1 v1 = pkg @ ''-1.2.3.tar.gz'' \<and>
         dest_fn urlpath pkg u2 v2 = ''mylib-src.zip'' \<and>
         fst (download_sources urlpath pkg pkgs_dir src) =
           [Download u1 (os_path_join pkgs_dir (pkg @ ''-1.2.3.tar.gz'')),
            Download u2 (os_path_join pkgs_dir ''mylib-src.zip'')]"
  using assms by (simp add: dest_fn_def download_sources_def fn_is_simple_examples)

lemma url_basename_examples:
  "url_basename simple_urlpath ''https://h.example/a/1.2.3.tar.gz'' = ''1.2.3.tar.gz''"
  "url_basename simple_urlpath ''https://h.example/a/mylib-src.zip'' = ''mylib-src.zip''"
  by (simp_all add: url_basename_def simple_urlpath_def os_path_basename_def)

theorem filename_disambiguation_witness:
  "fst (download_sources simple_urlpath ''foo'' ''/pkgs'' (Some src_good)) =
     [Download ''https://h.example/a/1.2.3.tar.gz'' ''/pkgs/foo-1.2.3.tar.gz'',
      Download ''https://h.example/a/mylib-src.zip'' ''/pkgs/mylib-src.zip'']"
  using filename_disambiguation [OF url_basename_examples load_urls_src_good, of "''foo''" "''/pkgs''"]
  by (simp add: os_path_join_def suffix_to_prefix)

text \<open>
  Claim C9. When a source entry declares a file name \<open>f\<close> that \<^verbatim>\<open>fn_is_simple\<close> accepts,
  the source is downloaded to the package name, a dash and \<open>f\<close>: the same name as for an
  entry with no declared name whose URL has the base name \<open>f\<close>.
\<close>

theorem explicit_fn_prefixed:
  assumes "load_urls src = Inr urls" and "(u, v) \<in> set urls"
    and "fn v = Some f" and "fn_is_simple f"
  shows "dest_fn urlpath pkg u v = pkg @ ''-'' @ f \<and>
         Download u (os_path_join pkgs_dir (pkg @ ''-'' @ f))
           \<in> set (fst (download_sources urlpath pkg pkgs_dir src)) \<and>
         (\<forall>w. fn w = None \<and> url_basename urlpath u = f \<longrightarrow>
              dest_fn urlpath pkg u w = dest_fn urlpath pkg u v)"
proof -
  have d: "dest_fn urlpath pkg u v = pkg @ ''-'' @ f"
    using assms(3,4) by (simp add: dest_fn_def)
  have "Download u (os_path_join pkgs_dir (dest_fn urlpath pkg u v))
          \<in> set (fst (download_sources urlpath pkg pkgs_dir src))"
    using assms(1,2) by (force simp: download_sources_def)
  with d show ?thesis using assms(4) by (simp add: dest_fn_def)
qed

theorem explicit_fn_prefixed_witness:
  "fst (download_sources simple_urlpath ''foo'' ''/pkgs'' (Some src_fn)) =
     [Download ''https://h.example/a/download'' ''/pkgs/foo-1.0.zip'']"
proof -
  have "Download ''https://h.example/a/download'' (os_path_join ''/pkgs'' (''foo'' @ ''-'' @ ''1.0.zip''))
          \<in> set (fst (download_sources simple_urlpath ''foo'' ''/pkgs'' (Some src_fn)))"
    using explicit_fn_prefixed [OF load_urls_src_fn, of "''https://h.example/a/download''" _ "''1.0.zip''"
        simple_urlpath "''foo''" "''/pkgs''"]
    by (simp add: fn_is_simple_examples)
  then show ?thesis
    by (simp add: download_sources_def load_urls_src_fn os_path_join_def suffix_to_prefix)
qed

section \<open>The requirements extractor: theorems\<close>

lemma split_reqs_doc:
  "split_on (CHR 0x0A) reqs_doc =
     [''requirements:'', ''  host:'', ''    - a'', ''  run:'', ''    - b'', ''about:'', ''  summary: x'']"
  by (simp add: reqs_doc_def)

lemma strip_examples:
  "str_strip ''requirements:'' = ''requirements:''"
  "str_strip ''  host:'' = ''host:''"
  "str_strip ''    - a'' = ''- a''"
  "str_strip ''  run:'' = ''run:''"
  "str_strip ''    - b'' = ''- b''"
  "str_strip ''about:'' = ''about:''"
  "str_strip ''  summary: x'' = ''summary: x''"
  by (simp_all add: str_strip_def is_space_def)

text \<open>
  Claim C6, as the code has it. On the document of the claim, the extractor returns the
  lines from \<^verbatim>\<open>requirements:\<close> to \<^verbatim>\<open>- b\<close>, each without its indentation; the line
  \<^verbatim>\<open>about:\<close> and what follows are left out.
\<close>

theorem extract_reqs_example:
  "extract_reqs reqs_doc = ''requirements:\<newline>host:\<newline>- a\<newline>run:\<newline>- b''"
  by (simp add: extract_reqs_def split_reqs_doc strip_examples keys_def suffix_to_prefix Let_def)

text \<open>
  The text that the specification expects, with the indentation kept, is not what the
  extractor returns.
\<close>

theorem extract_reqs_indentation_counterexample:
  "extract_reqs reqs_doc \<noteq> ''requirements:\<newline>  host:\<newline>    - a\<newline>  run:\<newline>    - b''"
  by (simp add: extract_reqs_def split_reqs_doc strip_examples keys_def suffix_to_prefix Let_def)

section \<open>Building the package database: theorems\<close>

lemma dict_append_nonempty:
  "\<forall>(k, v) \<in> set kvs. v \<noteq> [] \<Longrightarrow> \<forall>(k, v) \<in> set (dict_append kvs k x). v \<noteq> []"
  by (induction kvs k x rule: dict_append.induct) auto

lemma group_packages_nonempty:
  "\<forall>(k, v) \<in> set pkg_db. v \<noteq> [] \<Longrightarrow> \<forall>(k, v) \<in> set (group_packages forge_url data pkg_db). v \<noteq> []"
proof (induction forge_url data pkg_db rule: group_packages.induct)
  case (1 forge_url pkg_db)
  then show ?case by simp
next
  case (2 forge_url pn p data pkg_db)
  from dict_append_nonempty [OF "2.prems"] "2.IH" show ?case by simp
qed

lemma sort_group_parsed:
  assumes "\<forall>x \<in> set v. PV (version x) \<noteq> None"
  shows "sort_group PV v = sort_key (\<lambda>x. the (PV (version x))) v"
  using assms by (simp add: sort_group_def py_sorted_def list_all_iff)

lemma sort_group_fallback:
  assumes "\<exists>x \<in> set v. PV (version x) = None"
  shows "sort_group PV v = sort_key (\<lambda>x. (version x, timestamp x, build x)) v"
  using assms by (auto simp: sort_group_def py_sorted_def list_all_iff)

lemma map_of_dict_append:
  "map_of (dict_append kvs k x) k' =
     (if k' = k then Some ((case map_of kvs k of None \<Rightarrow> [] | Some xs \<Rightarrow> xs) @ [x])
      else map_of kvs k')"
  by (induction kvs k x rule: dict_append.induct) auto

lemma keys_dict_append: "set (map fst (dict_append kvs k x)) = insert k (set (map fst kvs))"
  by (induction kvs k x rule: dict_append.induct) auto

lemma distinct_dict_append:
  "distinct (map fst kvs) \<Longrightarrow> distinct (map fst (dict_append kvs k x))"
  by (induction kvs k x rule: dict_append.induct) (auto simp: keys_dict_append [simplified])

lemma distinct_group_packages:
  "distinct (map fst pkg_db) \<Longrightarrow> distinct (map fst (group_packages forge_url data pkg_db))"
  by (induction forge_url data pkg_db rule: group_packages.induct)
     (auto intro: distinct_dict_append)

lemma map_of_group_packages:
  "map_of (group_packages forge_url data pkg_db) k =
     (let new = map (\<lambda>(pn, p). mk_pkg forge_url pn p) (filter (\<lambda>(pn, p). raw_name p = k) data)
      in case map_of pkg_db k of
           None \<Rightarrow> if new = [] then None else Some new
         | Some xs \<Rightarrow> Some (xs @ new))"
proof (induction forge_url data pkg_db rule: group_packages.induct)
  case (1 forge_url pkg_db)
  then show ?case by (simp split: option.splits)
next
  case (2 forge_url pn p data pkg_db)
  show ?case
    by (simp add: "2.IH" map_of_dict_append Let_def split: option.splits)
qed

lemma map_of_parse_repodata:
  "map_of (parse_repodata PV forge_url data) k =
     (let v = map (\<lambda>(pn, p). mk_pkg forge_url pn p) (filter (\<lambda>(pn, p). raw_name p = k) data)
      in if v = [] then None else Some (sort_group PV v))"
proof -
  have "map_of (parse_repodata PV forge_url data) k =
          map_option (sort_group PV) (map_of (group_packages forge_url data []) k)"
    unfolding parse_repodata_def by (simp add: map_of_map)
  then show ?thesis by (simp add: map_of_group_packages Let_def)
qed

lemma distinct_parse_repodata: "distinct (map fst (parse_repodata PV forge_url data))"
proof -
  have "map fst (parse_repodata PV forge_url data) = map fst (group_packages forge_url data [])"
    by (simp add: parse_repodata_def case_prod_unfold comp_def)
  then show ?thesis using distinct_group_packages [of "[]" forge_url data] by simp
qed

text \<open>
  Claim C2. The database that \<^verbatim>\<open>parse_repodata\<close> builds has one group for each name of
  the listing and no other: for a name \<open>k\<close>, with \<open>v\<close> the records of that name in the
  order of the listing, there is no group when \<open>v\<close> is empty, and otherwise the group
  \<open>g\<close> of \<open>k\<close> is a rearrangement of \<open>v\<close>. When every version of \<open>v\<close> parses,
  \<open>g\<close> is \<open>v\<close> sorted by the parsed versions: ascending, and keeping records with equal
  parsed versions in their order of arrival. When some version does not parse, the whole
  group is sorted by the tuple of raw version, time stamp and build string, again ascending
  and keeping equal records in their order of arrival. Both orders are linear orders.
\<close>

theorem parse_repodata_sorted:
  fixes PV :: "string \<Rightarrow> 'v::linorder option"
  shows "distinct (map fst (parse_repodata PV forge_url data)) \<and>
   (let v = map (\<lambda>(pn, p). mk_pkg forge_url pn p) (filter (\<lambda>(pn, p). raw_name p = k) data)
    in (v = [] \<longrightarrow> map_of (parse_repodata PV forge_url data) k = None) \<and>
       (v \<noteq> [] \<longrightarrow>
          (\<exists>g. map_of (parse_repodata PV forge_url data) k = Some g \<and> mset g = mset v \<and>
             ((\<forall>x \<in> set v. PV (version x) \<noteq> None) \<longrightarrow>
                g = sort_key (\<lambda>x. the (PV (version x))) v \<and>
                sorted (map (\<lambda>x. the (PV (version x))) g) \<and>
                (\<forall>c. filter (\<lambda>x. the (PV (version x)) = c) g =
                     filter (\<lambda>x. the (PV (version x)) = c) v)) \<and>
             ((\<exists>x \<in> set v. PV (version x) = None) \<longrightarrow>
                g = sort_key (\<lambda>x. (version x, timestamp x, build x)) v \<and>
                sorted (map (\<lambda>x. (version x, timestamp x, build x)) g) \<and>
                (\<forall>c. filter (\<lambda>x. (version x, timestamp x, build x) = c) g =
                     filter (\<lambda>x. (version x, timestamp x, build x) = c) v)))))"
proof -
  define v where "v = map (\<lambda>(pn, p). mk_pkg forge_url pn p) (filter (\<lambda>(pn, p). raw_name p = k) data)"
  define g where "g = sort_group PV v"
  have look: "map_of (parse_repodata PV forge_url data) k = (if v = [] then None else Some g)"
    unfolding v_def g_def using map_of_parse_repodata [of PV forge_url data k]
    by (simp only: Let_def)
  have m: "mset g = mset v"
    by (cases "\<forall>x \<in> set v. PV (version x) \<noteq> None")
       (simp_all add: g_def sort_group_parsed sort_group_fallback)
  have sem: "g = sort_key (\<lambda>x. the (PV (version x))) v \<and>
                sorted (map (\<lambda>x. the (PV (version x))) g) \<and>
                (\<forall>c. filter (\<lambda>x. the (PV (version x)) = c) g =
                     filter (\<lambda>x. the (PV (version x)) = c) v)"
    if "\<forall>x \<in> set v. PV (version x) \<noteq> None"
    by (simp add: g_def sort_group_parsed [OF that] sort_key_stable)
  have fb: "g = sort_key (\<lambda>x. (version x, timestamp x, build x)) v \<and>
                sorted (map (\<lambda>x. (version x, timestamp x, build x)) g) \<and>
                (\<forall>c. filter (\<lambda>x. (version x, timestamp x, build x) = c) g =
                     filter (\<lambda>x. (version x, timestamp x, build x) = c) v)"
    if "\<exists>x \<in> set v. PV (version x) = None"
    by (simp add: g_def sort_group_fallback [OF that] sort_key_stable)
  have "(v = [] \<longrightarrow> map_of (parse_repodata PV forge_url data) k = None) \<and>
       (v \<noteq> [] \<longrightarrow>
          (\<exists>g. map_of (parse_repodata PV forge_url data) k = Some g \<and> mset g = mset v \<and>
             ((\<forall>x \<in> set v. PV (version x) \<noteq> None) \<longrightarrow>
                g = sort_key (\<lambda>x. the (PV (version x))) v \<and>
                sorted (map (\<lambda>x. the (PV (version x))) g) \<and>
                (\<forall>c. filter (\<lambda>x. the (PV (version x)) = c) g =
                     filter (\<lambda>x. the (PV (version x)) = c) v)) \<and>
             ((\<exists>x \<in> set v. PV (version x) = None) \<longrightarrow>
                g = sort_key (\<lambda>x. (version x, timestamp x, build x)) v \<and>
                sorted (map (\<lambda>x. (version x, timestamp x, build x)) g) \<and>
                (\<forall>c. filter (\<lambda>x. (version x, timestamp x, build x) = c) g =
                     filter (\<lambda>x. (version x, timestamp x, build x) = c) v))))"
  proof (intro conjI impI)
    assume "v = []"
    then show "map_of (parse_repodata PV forge_url data) k = None" by (simp add: look)
  next
    assume "v \<noteq> []"
    then have "map_of (parse_repodata PV forge_url data) k = Some g" by (simp add: look)
    with m sem fb show "\<exists>g. map_of (parse_repodata PV forge_url data) k = Some g \<and> mset g = mset v \<and>
             ((\<forall>x \<in> set v. PV (version x) \<noteq> None) \<longrightarrow>
                g = sort_key (\<lambda>x. the (PV (version x))) v \<and>
                sorted (map (\<lambda>x. the (PV (version x))) g) \<and>
                (\<forall>c. filter (\<lambda>x. the (PV (version x)) = c) g =
                     filter (\<lambda>x. the (PV (version x)) = c) v)) \<and>
             ((\<exists>x \<in> set v. PV (version x) = None) \<longrightarrow>
                g = sort_key (\<lambda>x. (version x, timestamp x, build x)) v \<and>
                sorted (map (\<lambda>x. (version x, timestamp x, build x)) g) \<and>
                (\<forall>c. filter (\<lambda>x. (version x, timestamp x, build x) = c) g =
                     filter (\<lambda>x. (version x, timestamp x, build x) = c) v))"
      by (intro exI [of _ g]) blast
  qed
  then show ?thesis
    unfolding Let_def v_def [symmetric] using distinct_parse_repodata [of PV forge_url data]
    by (rule conjI [rotated])
qed

lemma group_packages_raw1:
  "map (\<lambda>(k, v). (k, map version v)) (group_packages ''https://f'' raw1 []) =
     [(''a'', [''1.10'', ''1.9'']), (''b'', [''x'', ''10'', ''9''])]"
  by (simp add: raw1_def mk_pkg_def)

lemma parse_repodata_raw1:
  "map (\<lambda>(k, v). (k, map version v)) (parse_repodata release_PV ''https://f'' raw1) =
     [(''a'', [''1.9'', ''1.10'']), (''b'', [''10'', ''9'', ''x''])]"
  by (simp add: parse_repodata_def raw1_def mk_pkg_def sort_group_def py_sorted_def release_PV_raw1)

theorem parse_repodata_sorted_witness:
  "map version (the (map_of (parse_repodata release_PV ''https://f'' raw1) ''a'')) =
     [''1.9'', ''1.10''] \<and>
   map version (the (map_of (parse_repodata release_PV ''https://f'' raw1) ''b'')) =
     [''10'', ''9'', ''x''] \<and>
   map_of (parse_repodata release_PV ''https://f'' raw1) ''c'' = None"
proof -
  let ?v = "\<lambda>k. map (\<lambda>(pn, p). mk_pkg ''https://f'' pn p) (filter (\<lambda>(pn, p). raw_name p = k) raw1)"
  note t = parse_repodata_sorted [where PV = release_PV and forge_url = "''https://f''"
      and data = raw1, THEN conjunct2, unfolded Let_def]
  have na: "?v ''a'' \<noteq> []" and nb: "?v ''b'' \<noteq> []" and nc: "?v ''c'' = []"
    by (simp_all add: raw1_def)
  have pa: "\<forall>x \<in> set (?v ''a''). release_PV (version x) \<noteq> None"
    by (simp add: raw1_def mk_pkg_def release_PV_raw1)
  have pb: "\<exists>x \<in> set (?v ''b''). release_PV (version x) = None"
    by (simp add: raw1_def mk_pkg_def release_PV_raw1)
  from t [of "''a''", THEN conjunct2, THEN mp, OF na]
  obtain ga where ga: "map_of (parse_repodata release_PV ''https://f'' raw1) ''a'' = Some ga"
    and sa: "(\<forall>x \<in> set (?v ''a''). release_PV (version x) \<noteq> None) \<longrightarrow>
               ga = sort_key (\<lambda>x. the (release_PV (version x))) (?v ''a'') \<and>
               sorted (map (\<lambda>x. the (release_PV (version x))) ga) \<and>
               (\<forall>c. filter (\<lambda>x. the (release_PV (version x)) = c) ga =
                    filter (\<lambda>x. the (release_PV (version x)) = c) (?v ''a''))"
    by blast
  from sa [THEN mp, OF pa, THEN conjunct1]
  have a: "map version ga = [''1.9'', ''1.10'']"
    by (simp add: raw1_def mk_pkg_def release_PV_raw1)
  from t [of "''b''", THEN conjunct2, THEN mp, OF nb]
  obtain gb where gb: "map_of (parse_repodata release_PV ''https://f'' raw1) ''b'' = Some gb"
    and sb: "(\<exists>x \<in> set (?v ''b''). release_PV (version x) = None) \<longrightarrow>
               gb = sort_key (\<lambda>x. (version x, timestamp x, build x)) (?v ''b'') \<and>
               sorted (map (\<lambda>x. (version x, timestamp x, build x)) gb) \<and>
               (\<forall>c. filter (\<lambda>x. (version x, timestamp x, build x) = c) gb =
                    filter (\<lambda>x. (version x, timestamp x, build x) = c) (?v ''b''))"
    by blast
  from sb [THEN mp, OF pb, THEN conjunct1]
  have b: "map version gb = [''10'', ''9'', ''x'']"
    by (simp add: raw1_def mk_pkg_def)
  from t [of "''c''", THEN conjunct1, THEN mp, OF nc]
  have c: "map_of (parse_repodata release_PV ''https://f'' raw1) ''c'' = None" .
  from a b c ga gb show ?thesis by simp
qed

section \<open>Rewriting the URLs: theorems\<close>

lemma rev_takeWhile_dropWhile:
  "rev (dropWhile P (rev xs)) @ rev (takeWhile P (rev xs)) = xs"
proof -
  have "rev (takeWhile P (rev xs) @ dropWhile P (rev xs)) = xs" by simp
  then show ?thesis by (simp only: rev_append)
qed

lemma not_in_rev_takeWhile: "c \<notin> set (rev (takeWhile (\<lambda>x. x \<noteq> c) xs))"
  using set_takeWhileD [of c "\<lambda>x. x \<noteq> c" xs] by auto

lemma not_in_takeWhile: "c \<notin> set (takeWhile (\<lambda>x. x \<noteq> c) xs)"
  using set_takeWhileD [of c "\<lambda>x. x \<noteq> c" xs] by auto

lemma list_all_takeWhile: "list_all P (takeWhile P xs)"
  by (induction xs) auto

lemma url_regex_match_shape:
  assumes "url_regex_match line = Some (g1, head, tail)"
  shows "\<exists>ws1 dash ws2 ws3 mid.
           line = g1 @ head @ ''{{'' @ mid @ ''}}'' @ tail \<and>
           g1 = ws1 @ dash @ ws2 @ ''url:'' @ ws3 \<and>
           list_all is_space ws1 \<and> (dash = [] \<or> dash = ''-'') \<and>
           list_all is_space ws2 \<and> list_all is_space ws3 \<and>
           head \<noteq> [] \<and> CHR ''{'' \<notin> set head \<and> CHR 0x0A \<notin> set mid \<and>
           tail \<noteq> [] \<and> CHR ''}'' \<notin> set tail"
proof -
  define ws1 where "ws1 = takeWhile is_space line"
  define r1 where "r1 = dropWhile is_space line"
  define dash where "dash = (if prefix ''-'' r1 then ''-'' else [])"
  define r2 where "r2 = drop (length dash) r1"
  define ws2 where "ws2 = takeWhile is_space r2"
  define r3 where "r3 = dropWhile is_space r2"
  define r4 where "r4 = drop 4 r3"
  define nb where "nb = takeWhile (\<lambda>c. c \<noteq> CHR ''{'') r4"
  define r5 where "r5 = dropWhile (\<lambda>c. c \<noteq> CHR ''{'') r4"
  define ws3 where "ws3 = (if list_all is_space nb then butlast nb else takeWhile is_space nb)"
  define r6 where "r6 = drop 2 r5"
  define body where "body = rev (dropWhile (\<lambda>c. c \<noteq> CHR ''}'') (rev r6))"
  define mid where "mid = take (length body - 2) body"
  define tl where "tl = rev (takeWhile (\<lambda>c. c \<noteq> CHR ''}'') (rev r6))"
  note defs = ws1_def r1_def dash_def r2_def ws2_def r3_def r4_def nb_def r5_def ws3_def
    r6_def body_def mid_def tl_def
  have eq: "url_regex_match line =
      (if \<not> prefix ''url:'' r3 then None
       else if nb \<noteq> [] \<and> prefix ''{{'' r5 \<and> suffix ''}}'' body \<and>
                CHR 0x0A \<notin> set mid \<and> tl \<noteq> []
            then Some (ws1 @ dash @ ws2 @ ''url:'' @ ws3, drop (length ws3) nb, tl)
            else None)"
    unfolding url_regex_match_def Let_def defs by (rule refl)
  from assms have u: "prefix ''url:'' r3"
    unfolding eq by (simp split: if_splits)
  from assms have c: "nb \<noteq> []" "prefix ''{{'' r5" "suffix ''}}'' body"
    "CHR 0x0A \<notin> set mid" "tail \<noteq> []"
    and g1: "g1 = ws1 @ dash @ ws2 @ ''url:'' @ ws3"
    and head: "head = drop (length ws3) nb"
    and tail: "tail = rev (takeWhile (\<lambda>c. c \<noteq> CHR ''}'') (rev r6))"
    unfolding eq tl_def by (auto split: if_splits)
  have l1: "line = ws1 @ r1" by (simp add: ws1_def r1_def)
  have l2: "r1 = dash @ r2" by (auto simp: dash_def r2_def prefix_def)
  have l3: "r2 = ws2 @ r3" by (simp add: ws2_def r3_def)
  have l4: "r3 = ''url:'' @ r4" using u by (auto simp: r4_def prefix_def)
  have l5: "r4 = nb @ r5" by (simp add: nb_def r5_def)
  have "prefix ws3 nb"
    unfolding ws3_def by (simp add: prefixeq_butlast takeWhile_is_prefix)
  then obtain zs where zs: "nb = ws3 @ zs" by (auto simp: prefix_def)
  then have "drop (length ws3) nb = zs" by simp
  with zs head have l6: "nb = ws3 @ head" by simp
  have l7: "r5 = ''{{'' @ r6" using c(2) by (auto simp: r6_def prefix_def)
  have l8: "r6 = body @ tail" by (simp only: body_def tail rev_takeWhile_dropWhile)
  have l9: "body = mid @ ''}}''" using c(3) by (auto simp: mid_def suffix_def)
  have s3: "list_all is_space ws3"
  proof (cases "list_all is_space nb")
    case True
    then show ?thesis by (auto simp: ws3_def list_all_iff dest: in_set_butlastD)
  next
    case False
    then show ?thesis by (simp add: ws3_def list_all_takeWhile)
  qed
  have hne: "head \<noteq> []"
  proof (cases "list_all is_space nb")
    case True
    with c(1) have "length ws3 < length nb" by (simp add: ws3_def)
    then show ?thesis by (simp add: head)
  next
    case False
    then have "takeWhile is_space nb \<noteq> nb"
      by (metis list_all_takeWhile)
    then have "length (takeWhile is_space nb) < length nb"
      by (metis length_takeWhile_le le_neq_implies_less takeWhile_eq_take take_all_iff)
    with False show ?thesis by (simp add: head ws3_def)
  qed
  have hb: "CHR ''{'' \<notin> set head"
    using not_in_takeWhile [of "CHR ''{''" r4] l6 by (simp add: nb_def [symmetric])
  have tb: "CHR ''}'' \<notin> set tail"
    unfolding tail by (rule not_in_rev_takeWhile)
  have "line = g1 @ head @ ''{{'' @ mid @ ''}}'' @ tail"
    by (simp add: l1 l2 l3 l4 l5 l6 l7 l8 l9 g1)
  moreover have "list_all is_space ws1" "list_all is_space ws2"
    by (simp_all add: ws1_def ws2_def list_all_takeWhile)
  moreover have "dash = [] \<or> dash = ''-''" by (simp add: dash_def)
  ultimately show ?thesis using g1 s3 hne hb c(4,5) tb by blast
qed

lemma occurs_on_line_iff:
  "occurs_on_line t s \<longleftrightarrow> (\<exists>mid rest. s = mid @ t @ rest \<and> CHR 0x0A \<notin> set mid)"
proof (induction s)
  case Nil
  then show ?case by auto
next
  case (Cons c cs)
  show ?case
  proof
    assume "occurs_on_line t (c # cs)"
    then consider (here) "prefix t (c # cs)" | (later) "c \<noteq> CHR 0x0A" "occurs_on_line t cs"
      by auto
    then show "\<exists>mid rest. c # cs = mid @ t @ rest \<and> CHR 0x0A \<notin> set mid"
    proof cases
      case here
      then obtain rest where "c # cs = [] @ t @ rest" by (auto simp: prefix_def)
      then show ?thesis by (intro exI [of _ "[]"] exI [of _ rest]) simp
    next
      case later
      with Cons.IH obtain mid rest where "cs = mid @ t @ rest" "CHR 0x0A \<notin> set mid" by auto
      with later(1) show ?thesis by (intro exI [of _ "c # mid"] exI [of _ rest]) simp
    qed
  next
    assume "\<exists>mid rest. c # cs = mid @ t @ rest \<and> CHR 0x0A \<notin> set mid"
    then obtain mid rest where m: "c # cs = mid @ t @ rest" "CHR 0x0A \<notin> set mid" by auto
    show "occurs_on_line t (c # cs)"
    proof (cases mid)
      case Nil
      with m have "prefix t (c # cs)" by (simp add: prefix_def)
      then show ?thesis by simp
    next
      case (Cons d mid')
      with m have "c \<noteq> CHR 0x0A" "cs = mid' @ t @ rest" "CHR 0x0A \<notin> set mid'" by auto
      with Cons.IH show ?thesis by auto
    qed
  qed
qed

lemma url_pattern_match_iff:
  "url_pattern_match head tail u \<longleftrightarrow>
     (\<exists>mid rest. u = head @ mid @ tail @ rest \<and> CHR 0x0A \<notin> set mid)"
proof
  assume "url_pattern_match head tail u"
  then obtain zs mid rest where "u = head @ zs" "zs = mid @ tail @ rest" "CHR 0x0A \<notin> set mid"
    by (auto simp: url_pattern_match_def occurs_on_line_iff prefix_def)
  then show "\<exists>mid rest. u = head @ mid @ tail @ rest \<and> CHR 0x0A \<notin> set mid" by blast
next
  assume "\<exists>mid rest. u = head @ mid @ tail @ rest \<and> CHR 0x0A \<notin> set mid"
  then obtain mid rest where u: "u = head @ mid @ tail @ rest" and m: "CHR 0x0A \<notin> set mid"
    by blast
  from u have "prefix head u" "drop (length head) u = mid @ tail @ rest" by simp_all
  with m show "url_pattern_match head tail u"
    unfolding url_pattern_match_def occurs_on_line_iff by blast
qed

lemma download_sources_entries:
  assumes "download_sources urlpath pkg pkgs_dir src = (effs, Inr urls)"
    and "(u, v) \<in> set urls"
  shows "\<exists>d. fn v = Some d \<and> Download u (os_path_join pkgs_dir d) \<in> set effs"
proof -
  from assms(1) obtain urls0 where l: "load_urls src = Inr urls0"
    and e: "effs = map (\<lambda>(u, v). Download u (os_path_join pkgs_dir (dest_fn urlpath pkg u v))) urls0"
    and r: "urls = map (\<lambda>(u, v). (u, v\<lparr>fn := Some (dest_fn urlpath pkg u v)\<rparr>)) urls0"
    by (auto simp: download_sources_def split: sum.splits)
  from assms(2) r obtain v0 where "(u, v0) \<in> set urls0"
    and "v = v0\<lparr>fn := Some (dest_fn urlpath pkg u v0)\<rparr>" by auto
  then show ?thesis unfolding e by force
qed

lemma download_sources_keys:
  assumes "download_sources urlpath pkg pkgs_dir src = (effs, Inr urls)"
  shows "\<exists>urls0. load_urls src = Inr urls0 \<and> map fst urls = map fst urls0"
  using assms by (auto simp: download_sources_def split: sum.splits)

lemma url_regex_match_tpl_line:
  "url_regex_match tpl_line = Some (''  url: '', ''https://h.example/a/'', ''.tar.gz'')"
  by (simp add: url_regex_match_def tpl_line_def is_space_def suffix_to_prefix Let_def)

text \<open>
  Claim C10. A line that the pattern matches ends with \<^verbatim>\<open>}}\<close> followed by group 3, which is
  not empty and holds no \<^verbatim>\<open>}\<close>. A line that ends with \<^verbatim>\<open>}\<close>, and so every line that
  ends at the closing \<^verbatim>\<open>}}\<close>, is not matched: it is copied as it is and nothing is
  printed.
\<close>

theorem no_candidate_without_tail:
  "(url_regex_match line = Some (g1, head, tail) \<longrightarrow>
      tail \<noteq> [] \<and> CHR ''}'' \<notin> set tail \<and> suffix (''}}'' @ tail) line) \<and>
   (suffix ''}'' line' \<longrightarrow>
      url_regex_match line' = None \<and>
      rewrite_line urlpath relpath urls pkgs_dir meta_yaml_tpl line' = ([line'], []))"
proof (intro conjI impI)
  assume m: "url_regex_match line = Some (g1, head, tail)"
  from url_regex_match_shape [OF m]
  obtain mid where "line = (g1 @ head @ ''{{'' @ mid) @ ''}}'' @ tail"
    and t: "tail \<noteq> []" "CHR ''}'' \<notin> set tail" by auto
  then have "suffix (''}}'' @ tail) line" by (metis suffixI)
  with t show "tail \<noteq> []" "CHR ''}'' \<notin> set tail" "suffix (''}}'' @ tail) line" by simp_all
next
  assume s: "suffix ''}'' line'"
  show n: "url_regex_match line' = None"
  proof (rule ccontr)
    assume "url_regex_match line' \<noteq> None"
    then obtain g1 head tail where "url_regex_match line' = Some (g1, head, tail)" by auto
    from url_regex_match_shape [OF this]
    obtain pre where "line' = pre @ tail" and t: "tail \<noteq> []" "CHR ''}'' \<notin> set tail"
      by (metis append.assoc)
    with t have "last line' = last tail" "last tail \<in> set tail" by simp_all
    moreover from s have "last line' = CHR ''}''" by (auto simp: suffix_def)
    ultimately show False using t(2) by simp
  qed
  show "rewrite_line urlpath relpath urls pkgs_dir meta_yaml_tpl line' = ([line'], [])"
    by (simp add: rewrite_line_def n)
qed

theorem no_candidate_without_tail_witness:
  "url_regex_match tpl_line = Some (''  url: '', ''https://h.example/a/'', ''.tar.gz'') \<and>
   rewrite_line simple_urlpath example_relpath [] ''/pkgs'' ''/recipes/foo-1.2.3/meta.yaml.template''
     tpl_line_no_tail = ([tpl_line_no_tail], [])"
  using no_candidate_without_tail [of tpl_line "''  url: ''" "''https://h.example/a/''" "''.tar.gz''"
      tpl_line_no_tail simple_urlpath example_relpath "[]" "''/pkgs''"
      "''/recipes/foo-1.2.3/meta.yaml.template''"]
  by (simp add: url_regex_match_tpl_line) (simp add: tpl_line_no_tail_def suffix_to_prefix)

text \<open>
  Claim C5. Let \<open>urls\<close> be the dictionary after the sources of a recipe have been
  downloaded: its keys are those of \<^verbatim>\<open>load_urls\<close>, in the same order. A line that the
  pattern does not match is copied as it is. A line that it matches is the concatenation of
  group 1, the head, a part in double braces and the tail; if no URL matches head and tail,
  the line is copied as it is and a message printed; otherwise, for the first URL \<open>u\<close> that
  matches, the line is copied behind a \<^verbatim>\<open>#\<close> and followed by group 1 and the path, relative
  to the directory of the template, of the file \<open>dest\<close> to which \<open>u\<close> was downloaded. The
  new text is these lines, for the lines of the template in their order, joined by newlines.
\<close>

theorem replace_urls_round_trip:
  assumes "download_sources urlpath pkg pkgs_dir src = (effs, Inr urls)"
  shows "(\<exists>urls0. load_urls src = Inr urls0 \<and> map fst urls = map fst urls0) \<and>
         (case url_regex_match line of
            None \<Rightarrow> rewrite_line urlpath relpath urls pkgs_dir meta_yaml_tpl line = ([line], [])
          | Some (g1, head, tail) \<Rightarrow>
              (\<exists>mid. line = g1 @ head @ ''{{'' @ mid @ ''}}'' @ tail) \<and>
              (case find (\<lambda>(u, v). url_pattern_match head tail u) urls of
                 None \<Rightarrow>
                   rewrite_line urlpath relpath urls pkgs_dir meta_yaml_tpl line =
                     ([line], [UrlNotFound (str_strip line)])
               | Some (u, v) \<Rightarrow>
                   (\<exists>dest. Download u dest \<in> set effs \<and>
                      rewrite_line urlpath relpath urls pkgs_dir meta_yaml_tpl line =
                        ([''#'' @ line, g1 @ relpath dest (os_path_dirname meta_yaml_tpl)], [])))) \<and>
         replace_urls urlpath relpath meta_yaml_tpl urls pkgs_dir content =
           (str_join ''\<newline>''
              (concat (map (\<lambda>l. fst (rewrite_line urlpath relpath urls pkgs_dir meta_yaml_tpl l))
                           (split_on (CHR 0x0A) content))),
            concat (map (\<lambda>l. snd (rewrite_line urlpath relpath urls pkgs_dir meta_yaml_tpl l))
                        (split_on (CHR 0x0A) content)))"
proof (intro conjI)
  show "\<exists>urls0. load_urls src = Inr urls0 \<and> map fst urls = map fst urls0"
    by (rule download_sources_keys [OF assms])
next
  show "case url_regex_match line of
            None \<Rightarrow> rewrite_line urlpath relpath urls pkgs_dir meta_yaml_tpl line = ([line], [])
          | Some (g1, head, tail) \<Rightarrow>
              (\<exists>mid. line = g1 @ head @ ''{{'' @ mid @ ''}}'' @ tail) \<and>
              (case find (\<lambda>(u, v). url_pattern_match head tail u) urls of
                 None \<Rightarrow>
                   rewrite_line urlpath relpath urls pkgs_dir meta_yaml_tpl line =
                     ([line], [UrlNotFound (str_strip line)])
               | Some (u, v) \<Rightarrow>
                   (\<exists>dest. Download u dest \<in> set effs \<and>
                      rewrite_line urlpath relpath urls pkgs_dir meta_yaml_tpl line =
                        ([''#'' @ line, g1 @ relpath dest (os_path_dirname meta_yaml_tpl)], [])))"
  proof (cases "url_regex_match line")
    case None
    then show ?thesis by (simp add: rewrite_line_def)
  next
    case (Some m)
    then obtain g1 head tail where m: "url_regex_match line = Some (g1, head, tail)"
      by (cases m) auto
    from url_regex_match_shape [OF m]
    have shape: "\<exists>mid. line = g1 @ head @ ''{{'' @ mid @ ''}}'' @ tail" by blast
    show ?thesis
    proof (cases "find (\<lambda>(u, v). url_pattern_match head tail u) urls")
      case None
      with m shape show ?thesis by (simp add: rewrite_line_def)
    next
      case (Some uv)
      then obtain u v where f: "find (\<lambda>(u, v). url_pattern_match head tail u) urls = Some (u, v)"
        by (cases uv) auto
      then have "(u, v) \<in> set urls" by (metis find_Some_iff nth_mem)
      from download_sources_entries [OF assms this]
      obtain d where d: "fn v = Some d" "Download u (os_path_join pkgs_dir d) \<in> set effs"
        by blast
      have "rewrite_line urlpath relpath urls pkgs_dir meta_yaml_tpl line =
              ([''#'' @ line,
                g1 @ relpath (os_path_join pkgs_dir d) (os_path_dirname meta_yaml_tpl)], [])"
        by (simp add: rewrite_line_def m f d(1))
      with d(2) have "\<exists>dest. Download u dest \<in> set effs \<and>
                      rewrite_line urlpath relpath urls pkgs_dir meta_yaml_tpl line =
                        ([''#'' @ line, g1 @ relpath dest (os_path_dirname meta_yaml_tpl)], [])"
        by blast
      with m f shape show ?thesis by simp
    qed
  qed
next
  show "replace_urls urlpath relpath meta_yaml_tpl urls pkgs_dir content =
           (str_join ''\<newline>''
              (concat (map (\<lambda>l. fst (rewrite_line urlpath relpath urls pkgs_dir meta_yaml_tpl l))
                           (split_on (CHR 0x0A) content))),
            concat (map (\<lambda>l. snd (rewrite_line urlpath relpath urls pkgs_dir meta_yaml_tpl l))
                        (split_on (CHR 0x0A) content)))"
    by (simp add: replace_urls_def Let_def comp_def)
qed

lemma download_sources_src_good:
  "download_sources simple_urlpath ''foo'' ''/pkgs'' (Some src_good) =
     ([Download ''https://h.example/a/1.2.3.tar.gz'' ''/pkgs/foo-1.2.3.tar.gz'',
       Download ''https://h.example/a/mylib-src.zip'' ''/pkgs/mylib-src.zip''],
      Inr [(''https://h.example/a/1.2.3.tar.gz'',
            \<lparr>hash_type = ''md5'', hash = ''cd'', fn = Some ''foo-1.2.3.tar.gz''\<rparr>),
           (''https://h.example/a/mylib-src.zip'',
            \<lparr>hash_type = ''sha1'', hash = ''ef'', fn = Some ''mylib-src.zip''\<rparr>)])"
  by (simp add: download_sources_def load_urls_src_good dest_fn_def url_basename_examples
      fn_is_simple_examples os_path_join_def suffix_to_prefix)

lemma split_tpl_doc:
  "split_on (CHR 0x0A) tpl_doc =
     [''source:'', tpl_line, ''  md5: cd'', ''  url: https://other.example/{{ version }}.zip'']"
  by (simp add: tpl_doc_def tpl_line_def)

lemma url_regex_match_others:
  "url_regex_match ''source:'' = None"
  "url_regex_match ''  md5: cd'' = None"
  "url_regex_match ''  url: https://other.example/{{ version }}.zip'' =
     Some (''  url: '', ''https://other.example/'', ''.zip'')"
  by (simp_all add: url_regex_match_def is_space_def suffix_to_prefix Let_def)

lemma url_pattern_match_examples:
  "url_pattern_match ''https://h.example/a/'' ''.tar.gz'' ''https://h.example/a/1.2.3.tar.gz''"
  "\<not> url_pattern_match ''https://other.example/'' ''.zip'' ''https://h.example/a/1.2.3.tar.gz''"
  "\<not> url_pattern_match ''https://other.example/'' ''.zip'' ''https://h.example/a/mylib-src.zip''"
  by (simp_all add: url_pattern_match_def)

lemma rewrite_line_examples:
  "rewrite_line simple_urlpath example_relpath urls_good ''/pkgs''
     ''/recipes/foo-1.2.3/meta.yaml.template'' ''source:'' = ([''source:''], [])"
  "rewrite_line simple_urlpath example_relpath urls_good ''/pkgs''
     ''/recipes/foo-1.2.3/meta.yaml.template'' ''  md5: cd'' = ([''  md5: cd''], [])"
  "rewrite_line simple_urlpath example_relpath urls_good ''/pkgs''
     ''/recipes/foo-1.2.3/meta.yaml.template'' tpl_line =
       ([''#'' @ tpl_line, ''  url: ../../pkgs/foo-1.2.3.tar.gz''], [])"
  "rewrite_line simple_urlpath example_relpath urls_good ''/pkgs''
     ''/recipes/foo-1.2.3/meta.yaml.template'' ''  url: https://other.example/{{ version }}.zip'' =
       ([''  url: https://other.example/{{ version }}.zip''],
        [UrlNotFound ''url: https://other.example/{{ version }}.zip''])"
  by (simp_all add: rewrite_line_def url_regex_match_others url_regex_match_tpl_line urls_good_def
      url_pattern_match_examples example_relpath_def os_path_join_def os_path_dirname_def
      rstrip_slash_def str_strip_def is_space_def suffix_to_prefix)

theorem replace_urls_round_trip_witness:
  "replace_urls simple_urlpath example_relpath ''/recipes/foo-1.2.3/meta.yaml.template''
     urls_good ''/pkgs'' tpl_doc =
     (''source:\<newline>#  url: https://h.example/a/{{ version }}.tar.gz\<newline>  url: ../../pkgs/foo-1.2.3.tar.gz\<newline>  md5: cd\<newline>  url: https://other.example/{{ version }}.zip'',
      [UrlNotFound ''url: https://other.example/{{ version }}.zip''])"
  using replace_urls_round_trip [OF download_sources_src_good [folded urls_good_def],
      where line = tpl_line and relpath = example_relpath
        and meta_yaml_tpl = "''/recipes/foo-1.2.3/meta.yaml.template''" and content = tpl_doc]
  by (simp add: split_tpl_doc rewrite_line_examples) (simp add: tpl_line_def)

section \<open>The pattern of the rewriter, conversely\<close>

text \<open>
  \<open>url_regex_match_shape\<close> says that a result of \<open>url_regex_match\<close> is a match of the
  pattern, on the whole line. Conversely, whenever the line can be cut as the pattern asks,
  \<open>url_regex_match\<close> returns a match, with the same tail and with a group 1 at least as
  long: it is the match that the greedy \<^verbatim>\<open>\s*\<close> finds first.
\<close>

lemma takeWhile_all_then:
  "list_all P xs \<Longrightarrow> \<not> P y \<Longrightarrow> takeWhile P (xs @ y # ys) = xs"
  by (induction xs) auto

lemma dropWhile_all_then:
  "list_all P xs \<Longrightarrow> \<not> P y \<Longrightarrow> dropWhile P (xs @ y # ys) = y # ys"
  by (induction xs) auto

lemma not_space_chars:
  "\<not> is_space CHR ''-''" "\<not> is_space CHR ''u''" "\<not> is_space CHR ''{''"
  by (simp_all add: is_space_def)

lemma url_regex_match_complete:
  assumes line: "line = ws1 @ dash @ ws2 @ ''url:'' @ ws3 @ head @ ''{{'' @ mid @ ''}}'' @ tail"
    and ws: "list_all is_space ws1" "list_all is_space ws2" "list_all is_space ws3"
    and dash: "dash = [] \<or> dash = ''-''"
    and head: "head \<noteq> []" "CHR ''{'' \<notin> set head"
    and mid: "CHR 0x0A \<notin> set mid"
    and tail: "tail \<noteq> []" "CHR ''}'' \<notin> set tail"
  shows "\<exists>g1 head'. url_regex_match line = Some (g1, head', tail) \<and>
           g1 @ head' = ws1 @ dash @ ws2 @ ''url:'' @ ws3 @ head \<and>
           length (ws1 @ dash @ ws2 @ ''url:'' @ ws3) \<le> length g1"
proof -
  define rest where "rest = ws3 @ head @ ''{{'' @ mid @ ''}}'' @ tail"
  define a1 where "a1 = takeWhile is_space line"
  define r1 where "r1 = dropWhile is_space line"
  define d where "d = (if prefix ''-'' r1 then ''-'' else [])"
  define r2 where "r2 = drop (length d) r1"
  define a2 where "a2 = takeWhile is_space r2"
  define r3 where "r3 = dropWhile is_space r2"
  define r4 where "r4 = drop 4 r3"
  define nb where "nb = takeWhile (\<lambda>c. c \<noteq> CHR ''{'') r4"
  define r5 where "r5 = dropWhile (\<lambda>c. c \<noteq> CHR ''{'') r4"
  define a3 where "a3 = (if list_all is_space nb then butlast nb else takeWhile is_space nb)"
  define r6 where "r6 = drop 2 r5"
  define body where "body = rev (dropWhile (\<lambda>c. c \<noteq> CHR ''}'') (rev r6))"
  define m where "m = take (length body - 2) body"
  define tl where "tl = rev (takeWhile (\<lambda>c. c \<noteq> CHR ''}'') (rev r6))"
  note defs = a1_def r1_def d_def r2_def a2_def r3_def r4_def nb_def r5_def a3_def
    r6_def body_def m_def tl_def
  have eq: "url_regex_match line =
      (if \<not> prefix ''url:'' r3 then None
       else if nb \<noteq> [] \<and> prefix ''{{'' r5 \<and> suffix ''}}'' body \<and>
                CHR 0x0A \<notin> set m \<and> tl \<noteq> []
            then Some (a1 @ d @ a2 @ ''url:'' @ a3, drop (length a3) nb, tl)
            else None)"
    unfolding url_regex_match_def Let_def defs by (rule refl)
  have pre: "a1 @ d @ a2 = ws1 @ dash @ ws2 \<and> r3 = ''url:'' @ rest"
  proof (cases "dash = []")
    case True
    then have l: "line = (ws1 @ ws2) @ CHR ''u'' # (''rl:'' @ rest)"
      by (simp add: line rest_def)
    have "list_all is_space (ws1 @ ws2)" using ws by simp
    then have "a1 = ws1 @ ws2" "r1 = ''url:'' @ rest"
      unfolding a1_def r1_def l
      by (simp_all only: takeWhile_all_then dropWhile_all_then not_space_chars not_False_eq_True)
         simp_all
    then show ?thesis using True by (simp add: d_def r2_def a2_def r3_def not_space_chars)
  next
    case False
    with dash have dd: "dash = ''-''" by simp
    then have l: "line = ws1 @ CHR ''-'' # (ws2 @ ''url:'' @ rest)"
      by (simp add: line rest_def)
    have 1: "a1 = ws1" "r1 = CHR ''-'' # (ws2 @ ''url:'' @ rest)"
      unfolding a1_def r1_def l
      by (simp_all only: takeWhile_all_then dropWhile_all_then not_space_chars ws
          not_False_eq_True)
    then have 2: "d = ''-''" "r2 = ws2 @ CHR ''u'' # (''rl:'' @ rest)"
      by (simp_all add: d_def r2_def)
    have "a2 = ws2" "r3 = CHR ''u'' # (''rl:'' @ rest)"
      unfolding a2_def r3_def 2
      by (simp_all only: takeWhile_all_then dropWhile_all_then not_space_chars ws
          not_False_eq_True)
    with 1 2 dd show ?thesis by simp
  qed
  then have r4: "r4 = (ws3 @ head) @ CHR ''{'' # (''{'' @ mid @ ''}}'' @ tail)"
    by (simp add: r4_def rest_def)
  have nbrace: "list_all (\<lambda>c. c \<noteq> CHR ''{'') (ws3 @ head)"
    using ws(3) head(2) not_space_chars(3) by (auto simp: list_all_iff)
  have nb: "nb = ws3 @ head" and r5: "r5 = ''{{'' @ mid @ ''}}'' @ tail"
    unfolding nb_def r5_def r4
    using takeWhile_all_then [OF nbrace, of "CHR ''{''"] dropWhile_all_then [OF nbrace, of "CHR ''{''"]
    by simp_all
  have r6: "rev r6 = rev tail @ CHR ''}'' # (''}'' @ rev mid)"
    by (simp add: r6_def r5)
  have ntail: "list_all (\<lambda>c. c \<noteq> CHR ''}'') (rev tail)"
    using tail(2) by (auto simp: list_all_iff)
  have tl: "tl = tail" and body: "body = mid @ ''}}''"
    unfolding tl_def body_def r6
    using takeWhile_all_then [OF ntail, of "CHR ''}''"] dropWhile_all_then [OF ntail, of "CHR ''}''"]
    by simp_all
  have m: "m = mid" by (simp add: m_def body)
  have "prefix a3 nb"
    unfolding a3_def by (simp add: prefixeq_butlast takeWhile_is_prefix)
  then have a3: "a3 @ drop (length a3) nb = nb" by (auto simp: prefix_def)
  have len: "length ws3 \<le> length a3"
  proof (cases "list_all is_space nb")
    case True
    moreover from head(1) obtain h hs where "head = h # hs" by (cases head) auto
    ultimately show ?thesis by (simp add: a3_def nb)
  next
    case False
    have "takeWhile is_space (ws3 @ head) = ws3 @ takeWhile is_space head"
      using ws(3) by (simp add: takeWhile_append2 list_all_iff)
    moreover from False have "a3 = takeWhile is_space (ws3 @ head)"
      by (simp only: a3_def nb if_False)
    ultimately show ?thesis by simp
  qed
  have "url_regex_match line = Some (a1 @ d @ a2 @ ''url:'' @ a3, drop (length a3) nb, tail)"
    unfolding eq using pre nb r5 body m tl mid tail(1) head(1) by (simp add: suffix_def)
  moreover have "(a1 @ d @ a2 @ ''url:'' @ a3) @ drop (length a3) nb =
      ws1 @ dash @ ws2 @ ''url:'' @ ws3 @ head"
    using pre a3 nb by (metis append.assoc)
  moreover have "length (ws1 @ dash @ ws2 @ ''url:'' @ ws3) \<le> length (a1 @ d @ a2 @ ''url:'' @ a3)"
  proof -
    from pre have "length (a1 @ d @ a2) = length (ws1 @ dash @ ws2)" by simp
    with len show ?thesis by simp
  qed
  ultimately show ?thesis by blast
qed

section \<open>Matching by derivatives is matching\<close>

lemma nullable_words: "nullable r \<longleftrightarrow> [] \<in> words_of r"
  by (induction r) (auto simp: words_conc_def intro: words_star.empty_word)

lemma conc_Cons:
  "c # w \<in> words_conc A B \<longleftrightarrow>
     (\<exists>xs ys. w = xs @ ys \<and> c # xs \<in> A \<and> ys \<in> B) \<or> ([] \<in> A \<and> c # w \<in> B)"
  unfolding words_conc_def
  by (auto simp: Cons_eq_append_conv)

lemma star_Cons_elim:
  assumes "w \<in> words_star A" and "w = c # v"
  shows "\<exists>xs ys. v = xs @ ys \<and> c # xs \<in> A \<and> ys \<in> words_star A"
  using assms
proof (induction arbitrary: v rule: words_star.induct)
  case empty_word
  then show ?case by simp
next
  case (one_more xs ys)
  show ?case
  proof (cases xs)
    case Nil
    with one_more show ?thesis by simp
  next
    case (Cons d xs')
    with one_more.prems have "d = c" "v = xs' @ ys" by simp_all
    with Cons one_more.hyps show ?thesis by blast
  qed
qed

lemma star_Cons:
  "c # v \<in> words_star A \<longleftrightarrow> (\<exists>xs ys. v = xs @ ys \<and> c # xs \<in> A \<and> ys \<in> words_star A)"
proof
  assume "c # v \<in> words_star A"
  then show "\<exists>xs ys. v = xs @ ys \<and> c # xs \<in> A \<and> ys \<in> words_star A"
    by (rule star_Cons_elim) simp
next
  assume "\<exists>xs ys. v = xs @ ys \<and> c # xs \<in> A \<and> ys \<in> words_star A"
  then obtain xs ys where "v = xs @ ys" "c # xs \<in> A" "ys \<in> words_star A" by blast
  then show "c # v \<in> words_star A"
    using words_star.one_more [of "c # xs" A ys] by simp
qed

lemma deriv_words: "w \<in> words_of (deriv c r) \<longleftrightarrow> c # w \<in> words_of r"
proof (induction r arbitrary: w)
  case (Seq r s)
  then show ?case
    by (auto simp: conc_Cons nullable_words) (auto simp: words_conc_def)
next
  case (Star r)
  then show ?case
    by (auto simp: star_Cons) (auto simp: words_conc_def)
qed auto

lemma re_fullmatch_words: "re_fullmatch r w \<longleftrightarrow> w \<in> words_of r"
  by (induction w arbitrary: r) (simp_all add: nullable_words deriv_words)

end
